theory Spec2Isabelle
  imports Complex_Main "HOL-Library.Word" "HOL-Library.Multiset"
begin

unbundle bit_operations_syntax

section \<open>Numbers, vectors and boxes\<close>

text \<open>
  Coordinates are JavaScript numbers. The embedding takes a finite coordinate as an exact
  rational, without the rounding of a double; what happens beyond the largest double is
  looked at in a section of its own, on the statements it affects. The accumulators that
  the source starts at \<open>Infinity\<close> and \<open>-Infinity\<close> range over \<open>ext\<close>, the
  rationals with the two infinities, ordered as JavaScript orders them.
\<close>

datatype ext = NegInfinity | Fin rat | Infinity

instantiation ext :: linorder
begin

fun less_eq_ext :: "ext \<Rightarrow> ext \<Rightarrow> bool" where
  "less_eq_ext NegInfinity _ = True"
| "less_eq_ext _ Infinity = True"
| "less_eq_ext (Fin a) (Fin b) = (a \<le> b)"
| "less_eq_ext _ _ = False"

definition less_ext :: "ext \<Rightarrow> ext \<Rightarrow> bool" where
  "less_ext a b = (a \<le> b \<and> \<not> b \<le> a)"

instance
proof
  fix a b c :: ext
  show "(a < b) = (a \<le> b \<and> \<not> b \<le> a)"
    by (simp add: less_ext_def)
  show "a \<le> a"
    by (cases a) simp_all
  show "a \<le> b \<Longrightarrow> b \<le> c \<Longrightarrow> a \<le> c"
    by (cases a; cases b; cases c) simp_all
  show "a \<le> b \<Longrightarrow> b \<le> a \<Longrightarrow> a = b"
    by (cases a; cases b) simp_all
  show "a \<le> b \<or> b \<le> a"
    by (cases a; cases b) auto
qed

end

datatype 'a Vector3 = Vector3 (vx: 'a) (vy: 'a) (vz: 'a)

text \<open>The axis indices 0, 1 and 2 of \<open>getComponent\<close>.\<close>

datatype Axis = Axis0 | Axis1 | Axis2

fun getComponent :: "'a Vector3 \<Rightarrow> Axis \<Rightarrow> 'a" where
  "getComponent v Axis0 = vx v"
| "getComponent v Axis1 = vy v"
| "getComponent v Axis2 = vz v"

definition axes :: "Axis list" where
  "axes = [Axis0, Axis1, Axis2]"

text \<open>\<open>Vector3.min\<close> and \<open>Vector3.max\<close>: component-wise, into the receiver.\<close>

definition vmin :: "('a::linorder) Vector3 \<Rightarrow> 'a Vector3 \<Rightarrow> 'a Vector3" where
  "vmin a b = Vector3 (min (vx a) (vx b)) (min (vy a) (vy b)) (min (vz a) (vz b))"

definition vmax :: "('a::linorder) Vector3 \<Rightarrow> 'a Vector3 \<Rightarrow> 'a Vector3" where
  "vmax a b = Vector3 (max (vx a) (vx b)) (max (vy a) (vy b)) (max (vz a) (vz b))"

definition fin3 :: "rat Vector3 \<Rightarrow> ext Vector3" where
  "fin3 v = Vector3 (Fin (vx v)) (Fin (vy v)) (Fin (vz v))"

text \<open>A \<open>{ min, max }\<close> pair of corners.\<close>

datatype 'a Bounds = Bounds (bmin: "'a Vector3") (bmax: "'a Vector3")

definition finBounds :: "rat Bounds \<Rightarrow> ext Bounds" where
  "finBounds b = Bounds (fin3 (bmin b)) (fin3 (bmax b))"

text \<open>The box nothing has been added to: \<open>min\<close> at \<open>Infinity\<close>, \<open>max\<close> at \<open>-Infinity\<close>.\<close>

definition emptyBounds :: "ext Bounds" where
  "emptyBounds = Bounds (Vector3 Infinity Infinity Infinity)
                        (Vector3 NegInfinity NegInfinity NegInfinity)"

definition expandBounds :: "ext Bounds \<Rightarrow> ext Bounds \<Rightarrow> ext Bounds" where
  "expandBounds targetBounds sourceBounds =
     Bounds (vmin (bmin targetBounds) (bmin sourceBounds))
            (vmax (bmax targetBounds) (bmax sourceBounds))"

section \<open>Triangles and nodes\<close>

record Triangle =
  posA :: "rat Vector3"
  posB :: "rat Vector3"
  posC :: "rat Vector3"

record TriangleInfo =
  triangle :: Triangle
  index :: nat
  centroid :: "rat Vector3"
  bounds :: "rat Bounds"
  mortonCode :: int

definition newTriangleInfo :: "Triangle \<Rightarrow> nat \<Rightarrow> TriangleInfo" where
  "newTriangleInfo tri i =
     \<lparr> triangle = tri,
       index = i,
       centroid = Vector3
         ((vx (posA tri) + vx (posB tri) + vx (posC tri)) / 3)
         ((vy (posA tri) + vy (posB tri) + vy (posC tri)) / 3)
         ((vz (posA tri) + vz (posB tri) + vz (posC tri)) / 3),
       bounds = Bounds
         (Vector3
           (min (vx (posA tri)) (min (vx (posB tri)) (vx (posC tri))))
           (min (vy (posA tri)) (min (vy (posB tri)) (vy (posC tri))))
           (min (vz (posA tri)) (min (vz (posB tri)) (vz (posC tri)))))
         (Vector3
           (max (vx (posA tri)) (max (vx (posB tri)) (vx (posC tri))))
           (max (vy (posA tri)) (max (vy (posB tri)) (vy (posC tri))))
           (max (vz (posA tri)) (max (vz (posB tri)) (vz (posC tri))))),
       mortonCode = 0 \<rparr>"

text \<open>
  A node owns its children; \<open>null\<close> is \<open>None\<close>. A fresh node has zero vectors for its
  corners, no children and a zero range.
\<close>

datatype CWBVHNode = CWBVHNode
  (boundsMin: "ext Vector3") (boundsMax: "ext Vector3")
  (leftChild: "CWBVHNode option") (rightChild: "CWBVHNode option")
  (triangleOffset: nat) (triangleCount: nat)

definition newCWBVHNode :: CWBVHNode where
  "newCWBVHNode =
     CWBVHNode (Vector3 (Fin 0) (Fin 0) (Fin 0)) (Vector3 (Fin 0) (Fin 0) (Fin 0))
       None None 0 0"

section \<open>Partition and node bounds\<close>

text \<open>
  \<open>partitionTrianglesOptimized\<close> clears the two scratch arrays of the builder, pushes
  every element on one of them and returns copies; the scratch arrays are local to the
  model, since nothing reads them between calls.
\<close>

definition partitionTrianglesOptimized ::
    "TriangleInfo list \<Rightarrow> Axis \<Rightarrow> rat \<Rightarrow> TriangleInfo list \<times> TriangleInfo list" where
  "partitionTrianglesOptimized triangleInfos axis splitPos =
     fold (\<lambda>triInfo (tempLeftTris, tempRightTris).
             if getComponent (centroid triInfo) axis \<le> splitPos
             then (tempLeftTris @ [triInfo], tempRightTris)
             else (tempLeftTris, tempRightTris @ [triInfo]))
          triangleInfos ([], [])"

definition setBounds :: "CWBVHNode \<Rightarrow> ext Bounds \<Rightarrow> CWBVHNode" where
  "setBounds node b =
     CWBVHNode (bmin b) (bmax b) (leftChild node) (rightChild node)
       (triangleOffset node) (triangleCount node)"

definition nodeBounds :: "CWBVHNode \<Rightarrow> ext Bounds" where
  "nodeBounds node = Bounds (boundsMin node) (boundsMax node)"

definition updateNodeBoundsOptimized :: "CWBVHNode \<Rightarrow> TriangleInfo list \<Rightarrow> CWBVHNode" where
  "updateNodeBoundsOptimized node triangleInfos =
     setBounds node
       (fold (\<lambda>triInfo b. expandBounds b (finBounds (bounds triInfo)))
             triangleInfos emptyBounds)"

section \<open>Properties of the partition\<close>

lemma partition_fold_acc:
  "fold (\<lambda>triInfo (l, r).
           if getComponent (centroid triInfo) axis \<le> splitPos
           then (l @ [triInfo], r) else (l, r @ [triInfo]))
        tis (l0, r0) =
   (l0 @ filter (\<lambda>t. getComponent (centroid t) axis \<le> splitPos) tis,
    r0 @ filter (\<lambda>t. \<not> getComponent (centroid t) axis \<le> splitPos) tis)"
  by (induction tis arbitrary: l0 r0) simp_all

lemma partition_filter:
  "partitionTrianglesOptimized tis axis splitPos =
   (filter (\<lambda>t. getComponent (centroid t) axis \<le> splitPos) tis,
    filter (\<lambda>t. \<not> getComponent (centroid t) axis \<le> splitPos) tis)"
  unfolding partitionTrianglesOptimized_def
  using partition_fold_acc [of axis splitPos tis "[]" "[]"] by simp

section \<open>The builder\<close>

text \<open>
  The fields of \<open>BVHBuilder\<close> that the build reads or writes. The bin bounds
  (\<open>minBins = 8\<close>, \<open>maxBins = 64\<close>) and the two SAH costs stay at the values the
  constructor gives them, so they are constants here and \<open>setAdaptiveBinConfig\<close> is not
  part of the embedding. Left out: \<open>this.nodes\<close>, which collects references and is never
  read, the timers, and the progress callback with its counters, which depend on the
  clock and do not touch the tree.
\<close>

record SplitStats =
  sahSplits :: nat
  objectMedianSplits :: nat
  spatialMedianSplits :: nat
  failedSplits :: nat
  avgBinsUsed :: rat
  totalSplitAttempts :: nat

record BVHBuilder =
  useWorker :: bool
  maxLeafSize :: nat
  useMortonCodes :: bool
  mortonBits :: nat
  mortonClusterThreshold :: nat
  enableObjectMedianFallback :: bool
  enableSpatialMedianFallback :: bool
  totalNodes :: nat
  totalTriangles :: nat
  splitStats :: SplitStats

definition resetSplitStats :: SplitStats where
  "resetSplitStats =
     \<lparr> sahSplits = 0, objectMedianSplits = 0, spatialMedianSplits = 0, failedSplits = 0,
       avgBinsUsed = 0, totalSplitAttempts = 0 \<rparr>"

definition newBVHBuilder :: BVHBuilder where
  "newBVHBuilder =
     \<lparr> useWorker = True,
       maxLeafSize = 8,
       useMortonCodes = True,
       mortonBits = 10,
       mortonClusterThreshold = 128,
       enableObjectMedianFallback = True,
       enableSpatialMedianFallback = True,
       totalNodes = 0,
       totalTriangles = 0,
       splitStats = resetSplitStats \<rparr>"

definition minBins :: nat where
  "minBins = 8"

definition maxBins :: nat where
  "maxBins = 64"

definition traversalCost :: rat where
  "traversalCost = 1"

definition intersectionCost :: rat where
  "intersectionCost = 1"

definition getOptimalBinCount :: "nat \<Rightarrow> nat" where
  "getOptimalBinCount n =
     (if n \<le> 16 then minBins
      else if n \<le> 64 then 16
      else if n \<le> 256 then 32
      else if n \<le> 1024 then 48
      else maxBins)"

section \<open>Split selection\<close>

text \<open>
  What a split search returns: \<open>{ success: true, axis, pos, method }\<close>, or
  \<open>{ success: false, method }\<close>.
\<close>

datatype SplitInfo =
  SplitFound (split_axis: Axis) (split_pos: rat) (split_method: string)
| SplitFailed (split_method: string)

fun success :: "SplitInfo \<Rightarrow> bool" where
  "success (SplitFound _ _ _) = True"
| "success (SplitFailed _) = False"

text \<open>
  The smallest and largest centroid component of a list on one axis, from \<open>Infinity\<close>
  and \<open>-Infinity\<close>. Both are finite as soon as the list has an element.
\<close>

definition centroidRange :: "TriangleInfo list \<Rightarrow> Axis \<Rightarrow> ext \<times> ext" where
  "centroidRange triangleInfos axis =
     fold (\<lambda>triInfo (minCentroid, maxCentroid).
             (min minCentroid (Fin (getComponent (centroid triInfo) axis)),
              max maxCentroid (Fin (getComponent (centroid triInfo) axis))))
          triangleInfos (Infinity, NegInfinity)"

fun theFin3 :: "ext Vector3 \<Rightarrow> rat Vector3 option" where
  "theFin3 (Vector3 (Fin a) (Fin b) (Fin c)) = Some (Vector3 a b c)"
| "theFin3 _ = None"

text \<open>
  The surface area of a box with finite corners. The source calls it on the bounds of a
  node and on unions of filled bins, which enclose a triangle each; \<open>None\<close> is the
  result on a box with an infinite corner, where JavaScript gives \<open>Infinity\<close> or
  \<open>NaN\<close>.
\<close>

definition computeSurfaceAreaFromBounds :: "ext Vector3 \<Rightarrow> ext Vector3 \<Rightarrow> rat option" where
  "computeSurfaceAreaFromBounds bMin bMax =
     (case (theFin3 bMin, theFin3 bMax) of
        (Some lo, Some hi) \<Rightarrow>
          (let dx = vx hi - vx lo; dy = vy hi - vy lo; dz = vz hi - vz lo
           in Some (2 * (dx * dy + dy * dz + dz * dx)))
      | _ \<Rightarrow> None)"

text \<open>The bins in use: \<open>binCounts[0..n)\<close> and \<open>binBounds[0..n)\<close>, reset.\<close>

definition resetBins :: "nat \<Rightarrow> nat list \<times> ext Bounds list" where
  "resetBins currentBinCount = (replicate currentBinCount 0, replicate currentBinCount emptyBounds)"

text \<open>
  One triangle goes into its bin. Its centroid is not below \<open>minCentroid\<close>, so the index
  lies in \<open>[0, currentBinCount)\<close>.
\<close>

definition binIndexOf :: "rat \<Rightarrow> rat \<Rightarrow> rat \<Rightarrow> nat \<Rightarrow> nat" where
  "binIndexOf c minCentroid binScale currentBinCount =
     nat (min \<lfloor>(c - minCentroid) * binScale\<rfloor> (int currentBinCount - 1))"

definition placeTriangle ::
    "Axis \<Rightarrow> rat \<Rightarrow> rat \<Rightarrow> nat \<Rightarrow> TriangleInfo \<Rightarrow> nat list \<times> ext Bounds list
      \<Rightarrow> nat list \<times> ext Bounds list" where
  "placeTriangle axis minCentroid binScale currentBinCount triInfo bins =
     (let binCounts = fst bins; binBounds = snd bins;
          binIndex = binIndexOf (getComponent (centroid triInfo) axis) minCentroid binScale
                       currentBinCount
      in (binCounts[binIndex := binCounts ! binIndex + 1],
          binBounds[binIndex := expandBounds (binBounds ! binIndex) (finBounds (bounds triInfo))]))"

text \<open>Count and box of the non-empty bins among \<open>js\<close>, as the two inner loops sum them.\<close>

definition accumulateBins :: "nat list \<times> ext Bounds list \<Rightarrow> nat list \<Rightarrow> nat \<times> ext Bounds" where
  "accumulateBins bins js =
     fold (\<lambda>j (cnt, b).
             if fst bins ! j > 0 then (cnt + fst bins ! j, expandBounds b (snd bins ! j))
             else (cnt, b))
          js (0, emptyBounds)"

text \<open>
  The SAH cost of a candidate. \<open>None\<close> is a cost that is not a finite number: with a
  parent of area zero the quotients are \<open>Infinity\<close> or \<open>NaN\<close>, and such a cost passes
  neither comparison of the source.
\<close>

definition sahCost :: "rat option \<Rightarrow> rat option \<Rightarrow> rat option \<Rightarrow> nat \<Rightarrow> nat \<Rightarrow> rat option" where
  "sahCost parentSA leftSA rightSA leftCount rightCount =
     (case (parentSA, leftSA, rightSA) of
        (Some p, Some l, Some r) \<Rightarrow>
          if p = 0 then None
          else Some (traversalCost
                     + (l / p) * of_nat leftCount * intersectionCost
                     + (r / p) * of_nat rightCount * intersectionCost)
      | _ \<Rightarrow> None)"

text \<open>The running best of the search: \<open>bestCost\<close>, \<open>bestAxis\<close> (\<open>-1\<close> is \<open>None\<close>), \<open>bestPos\<close>.\<close>

type_synonym Best = "ext \<times> Axis option \<times> rat"

definition evaluateSplit ::
    "TriangleInfo list \<Rightarrow> CWBVHNode \<Rightarrow> Axis \<Rightarrow> rat \<Rightarrow> rat \<Rightarrow> nat
      \<Rightarrow> nat list \<times> ext Bounds list \<Rightarrow> nat \<Rightarrow> Best \<Rightarrow> Best" where
  "evaluateSplit triangleInfos parentNode axis minCentroid maxCentroid currentBinCount bins i best =
     (let (leftCount, leftBounds) = accumulateBins bins [0..<i];
          (rightCount, rightBounds) = accumulateBins bins [i..<currentBinCount]
      in if leftCount = 0 \<or> rightCount = 0 then best
         else
           (let parentSA = computeSurfaceAreaFromBounds (boundsMin parentNode) (boundsMax parentNode);
                leafCost = intersectionCost * of_nat (length triangleInfos);
                leftSA = computeSurfaceAreaFromBounds (bmin leftBounds) (bmax leftBounds);
                rightSA = computeSurfaceAreaFromBounds (bmin rightBounds) (bmax rightBounds)
            in case sahCost parentSA leftSA rightSA leftCount rightCount of
                 None \<Rightarrow> best
               | Some cost \<Rightarrow>
                   if Fin cost < fst best \<and> cost < leafCost
                   then (Fin cost, Some axis,
                         minCentroid + (maxCentroid - minCentroid) * of_nat i / of_nat currentBinCount)
                   else best))"

text \<open>
  One round of the loop over the axes. On the empty list the range is
  \<open>-Infinity - Infinity\<close>, below \<open>1e-6\<close>, and the axis is skipped.
\<close>

definition sahAxis :: "TriangleInfo list \<Rightarrow> CWBVHNode \<Rightarrow> Axis \<Rightarrow> Best \<Rightarrow> Best" where
  "sahAxis triangleInfos parentNode axis best =
     (case centroidRange triangleInfos axis of
        (Fin minCentroid, Fin maxCentroid) \<Rightarrow>
          if maxCentroid - minCentroid < 1 / 10 ^ 6 then best
          else
            (let currentBinCount = getOptimalBinCount (length triangleInfos);
                 binScale = of_nat currentBinCount / (maxCentroid - minCentroid);
                 bins = fold (placeTriangle axis minCentroid binScale currentBinCount)
                          triangleInfos (resetBins currentBinCount)
             in fold (evaluateSplit triangleInfos parentNode axis minCentroid maxCentroid
                        currentBinCount bins)
                  [1..<currentBinCount] best)
      | _ \<Rightarrow> best)"

text \<open>The largest extent of the triangle boxes on one axis, for the spatial median.\<close>

definition boundsRange :: "TriangleInfo list \<Rightarrow> Axis \<Rightarrow> ext \<times> ext" where
  "boundsRange triangleInfos axis =
     fold (\<lambda>triInfo (minBound, maxBound).
             (min minBound (Fin (getComponent (bmin (bounds triInfo)) axis)),
              max maxBound (Fin (getComponent (bmax (bounds triInfo)) axis))))
          triangleInfos (Infinity, NegInfinity)"

text \<open>
  The axis of largest spread, from \<open>bestSpread = -1\<close>: a strictly larger spread replaces
  the best one. The state is \<open>(bestAxis, bestSpread, bestBounds)\<close>.
\<close>

definition widestAxis ::
    "(Axis \<Rightarrow> ext \<times> ext) \<Rightarrow> Axis option \<times> rat \<times> rat \<times> rat" where
  "widestAxis rangeOf =
     fold (\<lambda>axis (bestAxis, bestSpread, bestMin, bestMax).
             case rangeOf axis of
               (Fin lo, Fin hi) \<Rightarrow>
                 if hi - lo > bestSpread then (Some axis, hi - lo, lo, hi)
                 else (bestAxis, bestSpread, bestMin, bestMax)
             | _ \<Rightarrow> (bestAxis, bestSpread, bestMin, bestMax))
          axes (None, -1, 0, 0)"

definition countLeft :: "TriangleInfo list \<Rightarrow> Axis \<Rightarrow> rat \<Rightarrow> nat" where
  "countLeft triangleInfos axis splitPos =
     fold (\<lambda>triInfo leftCount.
             if getComponent (centroid triInfo) axis \<le> splitPos then leftCount + 1 else leftCount)
          triangleInfos 0"

definition findSpatialMedianSplit :: "TriangleInfo list \<Rightarrow> SplitInfo" where
  "findSpatialMedianSplit triangleInfos =
     (case widestAxis (boundsRange triangleInfos) of
        (None, _) \<Rightarrow> SplitFailed ''spatial_median_failed''
      | (Some bestAxis, bestSpread, bestMin, bestMax) \<Rightarrow>
          if bestSpread < 1 / 10 ^ 12 then SplitFailed ''spatial_median_failed''
          else
            (let splitPos = (bestMin + bestMax) * (1 / 2);
                 leftCount = countLeft triangleInfos bestAxis splitPos;
                 rightCount = length triangleInfos - leftCount
             in if leftCount = 0 \<or> rightCount = 0 then
                  (let centroids = sort (map (\<lambda>tri. getComponent (centroid tri) bestAxis) triangleInfos);
                       medianIndex = length centroids div 2;
                       medianCentroid = centroids ! medianIndex
                   in if centroids ! 0 = centroids ! (length centroids - 1)
                      then SplitFailed ''spatial_median_degenerate''
                      else
                        (let adjustedSplitPos =
                               (if medianIndex > 0 \<and> centroids ! (medianIndex - 1) \<noteq> medianCentroid
                                then (centroids ! (medianIndex - 1) + medianCentroid) * (1 / 2)
                                else if medianIndex < length centroids - 1
                                then (medianCentroid + centroids ! (medianIndex + 1)) * (1 / 2)
                                else medianCentroid)
                         in SplitFound bestAxis adjustedSplitPos ''spatial_median''))
                else SplitFound bestAxis splitPos ''spatial_median''))"

definition findObjectMedianSplit :: "BVHBuilder \<Rightarrow> TriangleInfo list \<Rightarrow> SplitInfo" where
  "findObjectMedianSplit this triangleInfos =
     (let spatialFallback = (\<lambda>failure.
            if enableSpatialMedianFallback this then findSpatialMedianSplit triangleInfos
            else SplitFailed failure)
      in case widestAxis (centroidRange triangleInfos) of
           (None, _) \<Rightarrow> spatialFallback ''object_median_failed_no_spatial_fallback''
         | (Some bestAxis, bestSpread, _) \<Rightarrow>
             if bestSpread < 1 / 10 ^ 10
             then spatialFallback ''object_median_failed_no_spatial_fallback''
             else
               (let sortedTriangles = sort_key (\<lambda>t. getComponent (centroid t) bestAxis) triangleInfos;
                    medianIndex = length sortedTriangles div 2;
                    medianCentroid = getComponent (centroid (sortedTriangles ! medianIndex)) bestAxis;
                    leftCount = countLeft triangleInfos bestAxis medianCentroid
                in if leftCount = 0 \<or> leftCount = length triangleInfos then
                     (if medianIndex > 0 then
                        SplitFound bestAxis
                          ((getComponent (centroid (sortedTriangles ! (medianIndex - 1))) bestAxis
                            + medianCentroid) * (1 / 2))
                          ''object_median''
                      else spatialFallback ''object_median_degenerate_no_spatial_fallback'')
                   else SplitFound bestAxis medianCentroid ''object_median''))"

definition trackSplitAttempt :: "nat \<Rightarrow> SplitStats \<Rightarrow> SplitStats" where
  "trackSplitAttempt currentBinCount stats =
     (let attempts = totalSplitAttempts stats + 1
      in stats\<lparr> totalSplitAttempts := attempts,
                avgBinsUsed := (avgBinsUsed stats * of_nat (attempts - 1) + of_nat currentBinCount)
                               / of_nat attempts \<rparr>)"

definition findBestSplitPositionSAH ::
    "BVHBuilder \<Rightarrow> TriangleInfo list \<Rightarrow> CWBVHNode \<Rightarrow> SplitInfo \<times> BVHBuilder" where
  "findBestSplitPositionSAH this triangleInfos parentNode =
     (let currentBinCount = getOptimalBinCount (length triangleInfos);
          this1 = this\<lparr> splitStats := trackSplitAttempt currentBinCount (splitStats this) \<rparr>;
          (bestCost, bestAxis, bestPos) =
             fold (sahAxis triangleInfos parentNode) axes (Infinity, None, 0)
      in case bestAxis of
           None \<Rightarrow>
             (if enableObjectMedianFallback this1 then findObjectMedianSplit this1 triangleInfos
              else if enableSpatialMedianFallback this1 then findSpatialMedianSplit triangleInfos
              else SplitFailed ''fallbacks_disabled'',
              this1)
         | Some a \<Rightarrow> (SplitFound a bestPos ''SAH'', this1))"

section \<open>The recursive build\<close>

text \<open>
  The three places where the source turns the current node into a leaf run the same
  statements: the range starts at the current length of \<open>reorderedTriangles\<close> and the
  triangles of the node are pushed in their order.
\<close>

definition emitLeaf ::
    "CWBVHNode \<Rightarrow> TriangleInfo list \<Rightarrow> Triangle list \<Rightarrow> CWBVHNode \<times> Triangle list" where
  "emitLeaf node triangleInfos reorderedTriangles =
     (CWBVHNode (boundsMin node) (boundsMax node) (leftChild node) (rightChild node)
        (length reorderedTriangles) (length triangleInfos),
      reorderedTriangles @ map triangle triangleInfos)"

definition setChildren :: "CWBVHNode \<Rightarrow> CWBVHNode \<Rightarrow> CWBVHNode \<Rightarrow> CWBVHNode" where
  "setChildren node l r =
     CWBVHNode (boundsMin node) (boundsMax node) (Some l) (Some r)
       (triangleOffset node) (triangleCount node)"

definition trackSplitMethod :: "SplitInfo \<Rightarrow> SplitStats \<Rightarrow> SplitStats" where
  "trackSplitMethod splitInfo stats =
     (if split_method splitInfo = ''SAH'' then stats\<lparr> sahSplits := sahSplits stats + 1 \<rparr>
      else if split_method splitInfo = ''object_median''
      then stats\<lparr> objectMedianSplits := objectMedianSplits stats + 1 \<rparr>
      else if split_method splitInfo = ''spatial_median''
      then stats\<lparr> spatialMedianSplits := spatialMedianSplits stats + 1 \<rparr>
      else stats)"

definition trackFailedSplit :: "SplitStats \<Rightarrow> SplitStats" where
  "trackFailedSplit stats = stats\<lparr> failedSplits := failedSplits stats + 1 \<rparr>"

lemma partition_lengths:
  "length (fst (partitionTrianglesOptimized tis a p))
   + length (snd (partitionTrianglesOptimized tis a p)) = length tis"
  by (simp add: partition_filter sum_length_filter_compl)

lemma partition_left_shorter:
  assumes "snd (partitionTrianglesOptimized tis a p) \<noteq> []"
  shows "length (fst (partitionTrianglesOptimized tis a p)) < length tis"
proof -
  from assms have "0 < length (snd (partitionTrianglesOptimized tis a p))"
    by simp
  with partition_lengths [of tis a p] show ?thesis
    by linarith
qed

lemma partition_right_shorter:
  assumes "fst (partitionTrianglesOptimized tis a p) \<noteq> []"
  shows "length (snd (partitionTrianglesOptimized tis a p)) < length tis"
proof -
  from assms have "0 < length (fst (partitionTrianglesOptimized tis a p))"
    by simp
  with partition_lengths [of tis a p] show ?thesis
    by linarith
qed

text \<open>
  \<open>depth\<close> is a JavaScript number, taken as an integer. The recursion does not rely on it
  to stop: both sides of a partition that is recursed into are shorter than the list.
\<close>

function buildNodeRecursive ::
    "BVHBuilder \<Rightarrow> TriangleInfo list \<Rightarrow> int \<Rightarrow> Triangle list
      \<Rightarrow> CWBVHNode \<times> Triangle list \<times> BVHBuilder" where
  "buildNodeRecursive this triangleInfos depth reorderedTriangles =
     (let this1 = this\<lparr> totalNodes := totalNodes this + 1 \<rparr>;
          node = updateNodeBoundsOptimized newCWBVHNode triangleInfos
      in if length triangleInfos \<le> maxLeafSize this1 \<or> depth \<le> 0 then
           (fst (emitLeaf node triangleInfos reorderedTriangles),
            snd (emitLeaf node triangleInfos reorderedTriangles), this1)
         else
           (let splitInfo = fst (findBestSplitPositionSAH this1 triangleInfos node);
                this2 = snd (findBestSplitPositionSAH this1 triangleInfos node)
            in if \<not> success splitInfo then
                 (fst (emitLeaf node triangleInfos reorderedTriangles),
                  snd (emitLeaf node triangleInfos reorderedTriangles),
                  this2\<lparr> splitStats := trackFailedSplit (splitStats this2) \<rparr>)
               else
                 (let this3 = this2\<lparr> splitStats := trackSplitMethod splitInfo (splitStats this2) \<rparr>;
                      leftTris = fst (partitionTrianglesOptimized triangleInfos
                                        (split_axis splitInfo) (split_pos splitInfo));
                      rightTris = snd (partitionTrianglesOptimized triangleInfos
                                         (split_axis splitInfo) (split_pos splitInfo))
                  in if leftTris = [] \<or> rightTris = [] then
                       (fst (emitLeaf node triangleInfos reorderedTriangles),
                        snd (emitLeaf node triangleInfos reorderedTriangles), this3)
                     else
                       (case buildNodeRecursive this3 leftTris (depth - 1) reorderedTriangles of
                          (l, reordered1, this4) \<Rightarrow>
                            (case buildNodeRecursive this4 rightTris (depth - 1) reordered1 of
                               (r, reordered2, this5) \<Rightarrow>
                                 (setChildren node l r, reordered2, this5))))))"
  by pat_completeness auto

termination
  by (relation "measure (\<lambda>(this, triangleInfos, depth, reorderedTriangles). length triangleInfos)")
     (simp_all add: partition_left_shorter partition_right_shorter)

declare buildNodeRecursive.simps [simp del]

section \<open>Morton codes\<close>

text \<open>
  \<open>expandBits\<close> multiplies doubles and masks with \<open>&\<close>. Every product stays below
  \<open>2^53\<close>, so it is exact, and \<open>&\<close> reads both operands modulo \<open>2^32\<close>: the
  function is the same arithmetic on 32-bit words. Its result is a 32-bit integer with the
  sign bit clear.
\<close>

definition expandBits :: "32 word \<Rightarrow> 32 word" where
  "expandBits v =
     (let v1 = (v * 0x00010001) AND 0xFF0000FF;
          v2 = (v1 * 0x00000101) AND 0x0F00F00F;
          v3 = (v2 * 0x00000011) AND 0xC30C30C3;
          v4 = (v3 * 0x00000005) AND 0x49249249
      in v4)"

text \<open>
  \<open>morton3D\<close>: each \<open><<\<close> yields a signed 32-bit integer, and \<open>+\<close> adds them as
  numbers.
\<close>

definition morton3D :: "32 word \<Rightarrow> 32 word \<Rightarrow> 32 word \<Rightarrow> int" where
  "morton3D x y z =
     sint (push_bit 2 (expandBits z)) + sint (push_bit 1 (expandBits y)) + sint (expandBits x)"

text \<open>\<open>( 1 << bits ) - 1\<close>, the shift count taken modulo 32 as \<open><<\<close> does.\<close>

definition mortonScaleOf :: "nat \<Rightarrow> int" where
  "mortonScaleOf bits = sint (push_bit (bits mod 32) (1 :: 32 word)) - 1"

definition quantize :: "int \<Rightarrow> rat \<Rightarrow> int" where
  "quantize mortonScale normalized = max 0 (min mortonScale \<lfloor>normalized * of_int mortonScale\<rfloor>)"

text \<open>
  The code of a centroid for a given number of bits per axis; \<open>computeMortonCode\<close> uses
  \<open>this.mortonBits\<close>, the coarse pass of \<open>recursiveMortonCluster\<close> repeats the same
  statements with \<open>coarseBits\<close>. An axis of zero range keeps its difference undivided.
\<close>

definition mortonCodeWithBits :: "nat \<Rightarrow> rat Vector3 \<Rightarrow> rat Vector3 \<Rightarrow> rat Vector3 \<Rightarrow> int" where
  "mortonCodeWithBits bits c sceneMin sceneMax =
     (let normalize = (\<lambda>axis.
            let r = getComponent sceneMax axis - getComponent sceneMin axis;
                n = getComponent c axis - getComponent sceneMin axis
            in if r > 0 then n / r else n);
          mortonScale = mortonScaleOf bits;
          x = quantize mortonScale (normalize Axis0);
          y = quantize mortonScale (normalize Axis1);
          z = quantize mortonScale (normalize Axis2)
      in morton3D (word_of_int x) (word_of_int y) (word_of_int z))"

definition computeMortonCode :: "BVHBuilder \<Rightarrow> rat Vector3 \<Rightarrow> rat Vector3 \<Rightarrow> rat Vector3 \<Rightarrow> int" where
  "computeMortonCode this c sceneMin sceneMax = mortonCodeWithBits (mortonBits this) c sceneMin sceneMax"

text \<open>The box of the centroids; its corners are finite unless the list is empty.\<close>

definition sceneBounds :: "TriangleInfo list \<Rightarrow> ext Bounds" where
  "sceneBounds triangleInfos =
     fold (\<lambda>triInfo b. Bounds (vmin (bmin b) (fin3 (centroid triInfo)))
                               (vmax (bmax b) (fin3 (centroid triInfo))))
          triangleInfos emptyBounds"

text \<open>
  \<open>Array.prototype.sort\<close> is stable, and the comparator is the difference of the codes:
  \<open>sort_key\<close>, a stable insertion sort, gives the same array.
\<close>

definition sortTrianglesByMortonCode :: "BVHBuilder \<Rightarrow> TriangleInfo list \<Rightarrow> TriangleInfo list" where
  "sortTrianglesByMortonCode this triangleInfos =
     (if \<not> useMortonCodes this \<or> length triangleInfos < mortonClusterThreshold this
      then triangleInfos
      else
        (case (theFin3 (bmin (sceneBounds triangleInfos)), theFin3 (bmax (sceneBounds triangleInfos))) of
           (Some sceneMin, Some sceneMax) \<Rightarrow>
             sort_key mortonCode
               (map (\<lambda>triInfo. triInfo\<lparr> mortonCode :=
                                  computeMortonCode this (centroid triInfo) sceneMin sceneMax \<rparr>)
                    triangleInfos)
         | _ \<Rightarrow> triangleInfos))"

text \<open>
  The \<open>Map\<close> of clusters, in insertion order: a triangle joins the cluster of its coarse
  code, or opens a new one at the end. In \<open>recursiveMortonCluster\<close> and in
  \<open>sortTrianglesByMortonCode\<close> the scene corners are infinite for the empty list only,
  which every loop of the source leaves as it is.
\<close>

fun clusterPush ::
    "int \<Rightarrow> TriangleInfo \<Rightarrow> (int \<times> TriangleInfo list) list \<Rightarrow> (int \<times> TriangleInfo list) list" where
  "clusterPush k t [] = [(k, [t])]"
| "clusterPush k t ((k', ts) # rest) =
     (if k = k' then (k', ts @ [t]) # rest else (k', ts) # clusterPush k t rest)"

definition recursiveMortonCluster ::
    "BVHBuilder \<Rightarrow> TriangleInfo list \<Rightarrow> nat \<Rightarrow> TriangleInfo list" where
  "recursiveMortonCluster this triangleInfos maxClusterSize =
     (if length triangleInfos \<le> maxClusterSize then sortTrianglesByMortonCode this triangleInfos
      else
        (case (theFin3 (bmin (sceneBounds triangleInfos)), theFin3 (bmax (sceneBounds triangleInfos))) of
           (Some sceneMin, Some sceneMax) \<Rightarrow>
             (let coarseBits = max 6 (mortonBits this - 2);
                  clusters = fold (\<lambda>triInfo.
                                     clusterPush (mortonCodeWithBits coarseBits (centroid triInfo)
                                                    sceneMin sceneMax) triInfo)
                                  triangleInfos [];
                  sortedClusters = sort_key fst clusters
              in concat (map (\<lambda>(code, cluster). sortTrianglesByMortonCode this cluster) sortedClusters))
         | _ \<Rightarrow> triangleInfos))"

text \<open>
  \<open>setMortonConfig\<close>: each option that is not \<open>undefined\<close> is stored, the number of
  bits clamped to 6..16 and the threshold raised to at least 16.
\<close>

record MortonConfig =
  cfgEnabled :: "bool option"
  cfgBits :: "int option"
  cfgThreshold :: "int option"

definition setMortonConfig :: "BVHBuilder \<Rightarrow> MortonConfig \<Rightarrow> BVHBuilder" where
  "setMortonConfig this config =
     (let this1 = (case cfgEnabled config of None \<Rightarrow> this
                   | Some e \<Rightarrow> this\<lparr> useMortonCodes := e \<rparr>);
          this2 = (case cfgBits config of None \<Rightarrow> this1
                   | Some b \<Rightarrow> this1\<lparr> mortonBits := nat (max 6 (min 16 b)) \<rparr>);
          this3 = (case cfgThreshold config of None \<Rightarrow> this2
                   | Some t \<Rightarrow> this2\<lparr> mortonClusterThreshold := nat (max 16 t) \<rparr>)
      in this3)"

text \<open>
  The key the specification describes, following its words: the three \<open>B\<close>-bit integers
  interleaved bit by bit into one \<open>3B\<close>-bit key, bit \<open>i\<close> of \<open>x\<close> at position
  \<open>3i\<close>, of \<open>y\<close> at \<open>3i + 1\<close>, of \<open>z\<close> at \<open>3i + 2\<close>.
\<close>

fun interleave3 :: "nat \<Rightarrow> nat \<Rightarrow> nat \<Rightarrow> nat \<Rightarrow> nat" where
  "interleave3 0 x y z = 0"
| "interleave3 (Suc b) x y z =
     x mod 2 + 2 * (y mod 2) + 4 * (z mod 2) + 8 * interleave3 b (x div 2) (y div 2) (z div 2)"

section \<open>The build\<close>

text \<open>
  \<open>buildSync\<close> resets the counters, wraps every triangle with its index, presorts
  (by recursive clustering above 50000 triangles) and builds the root. It returns the root;
  the array \<open>reorderedTriangles\<close> it was given has been appended to. This is the build
  on exact numbers, where it always returns; the exception that the build raises beyond
  the range of doubles is followed in \<open>buildSyncJS\<close> below.
\<close>

definition resetState :: "BVHBuilder \<Rightarrow> Triangle list \<Rightarrow> BVHBuilder" where
  "resetState this triangles =
     this\<lparr> totalNodes := 0, totalTriangles := length triangles, splitStats := resetSplitStats \<rparr>"

definition toTriangleInfos :: "Triangle list \<Rightarrow> TriangleInfo list" where
  "toTriangleInfos triangles =
     map (\<lambda>(tri, i). newTriangleInfo tri i) (zip triangles [0..<length triangles])"

definition presort :: "BVHBuilder \<Rightarrow> TriangleInfo list \<Rightarrow> TriangleInfo list" where
  "presort this triangleInfos =
     (if length triangleInfos > 50000 then recursiveMortonCluster this triangleInfos 10000
      else sortTrianglesByMortonCode this triangleInfos)"

definition buildSync ::
    "BVHBuilder \<Rightarrow> Triangle list \<Rightarrow> int \<Rightarrow> Triangle list
      \<Rightarrow> CWBVHNode \<times> Triangle list \<times> BVHBuilder" where
  "buildSync this triangles depth reorderedTriangles =
     buildNodeRecursive (resetState this triangles)
       (presort (resetState this triangles) (toTriangleInfos triangles))
       depth reorderedTriangles"

section \<open>Unfolding the recursion\<close>

text \<open>
  Names for the values a call of \<open>buildNodeRecursive\<close> computes before it recurses: the
  node with its bounds, the builder after the node counter went up, the split found, the two
  sides of the partition, the builder handed to the first recursive call, and the
  condition under which the call returns a leaf.
\<close>

definition nodeOf :: "TriangleInfo list \<Rightarrow> CWBVHNode" where
  "nodeOf tis = updateNodeBoundsOptimized newCWBVHNode tis"

definition entered :: "BVHBuilder \<Rightarrow> BVHBuilder" where
  "entered this = this\<lparr> totalNodes := totalNodes this + 1 \<rparr>"

definition splitInfoOf :: "BVHBuilder \<Rightarrow> TriangleInfo list \<Rightarrow> SplitInfo" where
  "splitInfoOf this tis = fst (findBestSplitPositionSAH (entered this) tis (nodeOf tis))"

definition leftOf :: "BVHBuilder \<Rightarrow> TriangleInfo list \<Rightarrow> TriangleInfo list" where
  "leftOf this tis =
     fst (partitionTrianglesOptimized tis (split_axis (splitInfoOf this tis))
            (split_pos (splitInfoOf this tis)))"

definition rightOf :: "BVHBuilder \<Rightarrow> TriangleInfo list \<Rightarrow> TriangleInfo list" where
  "rightOf this tis =
     snd (partitionTrianglesOptimized tis (split_axis (splitInfoOf this tis))
            (split_pos (splitInfoOf this tis)))"

definition thisAfterSplit :: "BVHBuilder \<Rightarrow> TriangleInfo list \<Rightarrow> BVHBuilder" where
  "thisAfterSplit this tis =
     (snd (findBestSplitPositionSAH (entered this) tis (nodeOf tis)))
       \<lparr> splitStats := trackSplitMethod (splitInfoOf this tis)
           (splitStats (snd (findBestSplitPositionSAH (entered this) tis (nodeOf tis)))) \<rparr>"

definition becomesLeaf :: "BVHBuilder \<Rightarrow> TriangleInfo list \<Rightarrow> int \<Rightarrow> bool" where
  "becomesLeaf this tis depth =
     (length tis \<le> maxLeafSize this \<or> depth \<le> 0 \<or> \<not> success (splitInfoOf this tis)
      \<or> leftOf this tis = [] \<or> rightOf this tis = [])"

lemma build_leaf:
  assumes "becomesLeaf this tis depth"
  shows "fst (buildNodeRecursive this tis depth out) = fst (emitLeaf (nodeOf tis) tis out)"
    and "fst (snd (buildNodeRecursive this tis depth out)) = out @ map triangle tis"
  using assms
  unfolding becomesLeaf_def leftOf_def rightOf_def splitInfoOf_def entered_def nodeOf_def
  by (auto simp: buildNodeRecursive.simps [of this tis depth out] Let_def emitLeaf_def)

lemma build_split:
  assumes "\<not> becomesLeaf this tis depth"
  shows "buildNodeRecursive this tis depth out =
     (case buildNodeRecursive (thisAfterSplit this tis) (leftOf this tis) (depth - 1) out of
        (l, reordered1, this4) \<Rightarrow>
          (case buildNodeRecursive this4 (rightOf this tis) (depth - 1) reordered1 of
             (r, reordered2, this5) \<Rightarrow> (setChildren (nodeOf tis) l r, reordered2, this5)))"
  using assms
  unfolding becomesLeaf_def leftOf_def rightOf_def splitInfoOf_def entered_def nodeOf_def
    thisAfterSplit_def
  by (subst buildNodeRecursive.simps) (simp add: Let_def)

lemma build_split_node:
  assumes "\<not> becomesLeaf this tis depth"
  shows "fst (buildNodeRecursive this tis depth out) =
     setChildren (nodeOf tis)
       (fst (buildNodeRecursive (thisAfterSplit this tis) (leftOf this tis) (depth - 1) out))
       (fst (buildNodeRecursive
          (snd (snd (buildNodeRecursive (thisAfterSplit this tis) (leftOf this tis) (depth - 1) out)))
          (rightOf this tis) (depth - 1)
          (fst (snd (buildNodeRecursive (thisAfterSplit this tis) (leftOf this tis) (depth - 1) out)))))"
  by (simp add: build_split [OF assms] case_prod_beta)

lemma build_split_out:
  assumes "\<not> becomesLeaf this tis depth"
  shows "fst (snd (buildNodeRecursive this tis depth out)) =
     fst (snd (buildNodeRecursive
          (snd (snd (buildNodeRecursive (thisAfterSplit this tis) (leftOf this tis) (depth - 1) out)))
          (rightOf this tis) (depth - 1)
          (fst (snd (buildNodeRecursive (thisAfterSplit this tis) (leftOf this tis) (depth - 1) out)))))"
  by (simp add: build_split [OF assms] case_prod_beta)

lemma build_induct [consumes 0, case_names leaf split]:
  assumes leaf: "\<And>this tis depth out. becomesLeaf this tis depth \<Longrightarrow> P this tis depth out"
    and split: "\<And>this tis depth out.
       \<not> becomesLeaf this tis depth \<Longrightarrow>
       P (thisAfterSplit this tis) (leftOf this tis) (depth - 1) out \<Longrightarrow>
       P (snd (snd (buildNodeRecursive (thisAfterSplit this tis) (leftOf this tis) (depth - 1) out)))
         (rightOf this tis) (depth - 1)
         (fst (snd (buildNodeRecursive (thisAfterSplit this tis) (leftOf this tis) (depth - 1) out))) \<Longrightarrow>
       P this tis depth out"
  shows "P this tis depth out"
proof (induction this tis depth out rule: buildNodeRecursive.induct)
  case (1 this tis depth out)
  show ?case
  proof (cases "becomesLeaf this tis depth")
    case True
    then show ?thesis by (rule leaf)
  next
    case False
    note nl = False
    have l: "P (thisAfterSplit this tis) (leftOf this tis) (depth - 1) out"
      using nl
      unfolding becomesLeaf_def leftOf_def rightOf_def splitInfoOf_def entered_def nodeOf_def
        thisAfterSplit_def
      by (intro "1.IH"(1) [OF refl refl _ refl refl _ refl refl refl]) auto
    have r: "P (snd (snd (buildNodeRecursive (thisAfterSplit this tis) (leftOf this tis) (depth - 1) out)))
         (rightOf this tis) (depth - 1)
         (fst (snd (buildNodeRecursive (thisAfterSplit this tis) (leftOf this tis) (depth - 1) out)))"
      using nl
      unfolding becomesLeaf_def leftOf_def rightOf_def splitInfoOf_def entered_def nodeOf_def
        thisAfterSplit_def
      by (intro "1.IH"(2) [OF refl refl _ refl refl _ refl refl refl _ prod.collapse prod.collapse]) auto
    from nl l r show ?thesis by (rule split)
  qed
qed


section \<open>Nodes, leaves and ranges of a tree\<close>

fun allNodes :: "CWBVHNode \<Rightarrow> CWBVHNode list" where
  "allNodes (CWBVHNode bMin bMax l r off cnt) =
     CWBVHNode bMin bMax l r off cnt
     # (case l of None \<Rightarrow> [] | Some n \<Rightarrow> allNodes n)
     @ (case r of None \<Rightarrow> [] | Some n \<Rightarrow> allNodes n)"

definition isLeaf :: "CWBVHNode \<Rightarrow> bool" where
  "isLeaf n = (leftChild n = None \<and> rightChild n = None)"

definition isInternal :: "CWBVHNode \<Rightarrow> bool" where
  "isInternal n = (leftChild n \<noteq> None \<and> rightChild n \<noteq> None)"

definition leaves :: "CWBVHNode \<Rightarrow> CWBVHNode list" where
  "leaves n = filter isLeaf (allNodes n)"

definition leafRange :: "CWBVHNode \<Rightarrow> nat list" where
  "leafRange n = [triangleOffset n ..< triangleOffset n + triangleCount n]"

lemma allNodes_emitLeaf:
  "allNodes (fst (emitLeaf (nodeOf tis) tis out)) = [fst (emitLeaf (nodeOf tis) tis out)]"
  by (simp add: emitLeaf_def nodeOf_def updateNodeBoundsOptimized_def setBounds_def newCWBVHNode_def)

lemma allNodes_setChildren:
  "allNodes (setChildren n l r) = setChildren n l r # allNodes l @ allNodes r"
  by (simp add: setChildren_def)

lemma emitLeaf_fields:
  "leftChild (fst (emitLeaf (nodeOf tis) tis out)) = None"
  "rightChild (fst (emitLeaf (nodeOf tis) tis out)) = None"
  "triangleOffset (fst (emitLeaf (nodeOf tis) tis out)) = length out"
  "triangleCount (fst (emitLeaf (nodeOf tis) tis out)) = length tis"
  by (simp_all add: emitLeaf_def nodeOf_def updateNodeBoundsOptimized_def setBounds_def newCWBVHNode_def)

lemma setChildren_fields:
  "leftChild (setChildren n l r) = Some l"
  "rightChild (setChildren n l r) = Some r"
  "boundsMin (setChildren n l r) = boundsMin n"
  "boundsMax (setChildren n l r) = boundsMax n"
  by (simp_all add: setChildren_def)

lemma split_lengths:
  "length (leftOf this tis) + length (rightOf this tis) = length tis"
  by (simp add: leftOf_def rightOf_def partition_lengths)

lemma build_out_length:
  "length (fst (snd (buildNodeRecursive this tis depth out))) = length out + length tis"
proof (induction this tis depth out rule: build_induct)
  case (leaf this tis depth out)
  then show ?case by (simp add: build_leaf)
next
  case (split this tis depth out)
  then show ?case
    using split_lengths [of this tis]
    by (simp add: build_split_out)
qed

lemma build_leaf_ranges:
  "concat (map leafRange (leaves (fst (buildNodeRecursive this tis depth out))))
   = [length out ..< length out + length tis]"
proof (induction this tis depth out rule: build_induct)
  case (leaf this tis depth out)
  then show ?case
    by (simp add: build_leaf leaves_def allNodes_emitLeaf isLeaf_def emitLeaf_fields leafRange_def)
next
  case (split this tis depth out)
  let ?lres = "buildNodeRecursive (thisAfterSplit this tis) (leftOf this tis) (depth - 1) out"
  let ?rres = "buildNodeRecursive (snd (snd ?lres)) (rightOf this tis) (depth - 1) (fst (snd ?lres))"
  have root: "fst (buildNodeRecursive this tis depth out) = setChildren (nodeOf tis) (fst ?lres) (fst ?rres)"
    using split.hyps by (rule build_split_node)
  have lv: "leaves (setChildren (nodeOf tis) (fst ?lres) (fst ?rres)) = leaves (fst ?lres) @ leaves (fst ?rres)"
    by (simp add: leaves_def allNodes_setChildren isLeaf_def setChildren_fields)
  have len1: "length (fst (snd ?lres)) = length out + length (leftOf this tis)"
    by (rule build_out_length)
  have "[length out ..< length out + length (leftOf this tis)]
        @ [length out + length (leftOf this tis) ..< length out + length (leftOf this tis) + length (rightOf this tis)]
        = [length out ..< length out + length tis]"
    using split_lengths [of this tis] upt_add_eq_append [of "length out" "length out + length (leftOf this tis)" "length (rightOf this tis)"]
    by (simp add: add.assoc)
  then show ?case
    using split.IH by (simp add: root lv len1)
qed


section \<open>Boxes of lists\<close>

definition boxOf :: "TriangleInfo list \<Rightarrow> ext Bounds" where
  "boxOf tis = fold (\<lambda>triInfo b. expandBounds b (finBounds (bounds triInfo))) tis emptyBounds"

lemma ext_top [simp]: "(x :: ext) \<le> Infinity"
  by (cases x) simp_all

lemma ext_bot [simp]: "NegInfinity \<le> (x :: ext)"
  by (cases x) simp_all

lemma expandBounds_assoc:
  "expandBounds (expandBounds a b) c = expandBounds a (expandBounds b c)"
  by (simp add: expandBounds_def vmin_def vmax_def min.assoc max.assoc)

lemma expandBounds_left_commute:
  "expandBounds a (expandBounds b c) = expandBounds b (expandBounds a c)"
  by (simp add: expandBounds_def vmin_def vmax_def min.left_commute max.left_commute)

lemma expandBounds_commute: "expandBounds a b = expandBounds b a"
  by (simp add: expandBounds_def vmin_def vmax_def min.commute max.commute)

lemma ext_min_top [simp]: "min Infinity (x :: ext) = x"
  by (simp add: min_absorb2)

lemma ext_max_bot [simp]: "max NegInfinity (x :: ext) = x"
  by (simp add: max_absorb2)

lemma expandBounds_empty_left [simp]: "expandBounds emptyBounds b = b"
  by (simp add: expandBounds_def emptyBounds_def vmin_def vmax_def)

lemma expandBounds_empty_right [simp]: "expandBounds b emptyBounds = b"
  by (simp add: expandBounds_commute [of b])

lemma fold_expandBounds:
  "fold (\<lambda>triInfo b. expandBounds b (finBounds (bounds triInfo))) tis b0
   = expandBounds b0 (boxOf tis)"
proof (induction tis arbitrary: b0)
  case Nil
  then show ?case by (simp add: boxOf_def)
next
  case (Cons t tis)
  have "boxOf (t # tis) = expandBounds (finBounds (bounds t)) (boxOf tis)"
    by (simp add: boxOf_def Cons.IH [of "finBounds (bounds t)", unfolded boxOf_def])
  then show ?case
    by (simp add: Cons.IH expandBounds_assoc)
qed

lemma boxOf_Cons: "boxOf (t # tis) = expandBounds (finBounds (bounds t)) (boxOf tis)"
  using fold_expandBounds [of tis "finBounds (bounds t)"] by (simp add: boxOf_def)

lemma boxOf_Nil: "boxOf [] = emptyBounds"
  by (simp add: boxOf_def)

lemma boxOf_filter:
  "expandBounds (boxOf (filter P tis)) (boxOf (filter (\<lambda>t. \<not> P t) tis)) = boxOf tis"
proof (induction tis)
  case Nil
  then show ?case by (simp add: boxOf_Nil)
next
  case (Cons t tis)
  show ?case
  proof (cases "P t")
    case True
    then show ?thesis
      using Cons.IH by (simp add: boxOf_Cons expandBounds_assoc)
  next
    case False
    have "expandBounds (boxOf (filter P tis))
            (expandBounds (finBounds (bounds t)) (boxOf (filter (\<lambda>t. \<not> P t) tis)))
          = expandBounds (finBounds (bounds t))
              (expandBounds (boxOf (filter P tis)) (boxOf (filter (\<lambda>t. \<not> P t) tis)))"
      by (rule expandBounds_left_commute)
    with False show ?thesis
      using Cons.IH by (simp add: boxOf_Cons)
  qed
qed

lemma boxOf_split:
  "expandBounds (boxOf (leftOf this tis)) (boxOf (rightOf this tis)) = boxOf tis"
  by (simp add: leftOf_def rightOf_def partition_filter boxOf_filter)

lemma nodeOf_bounds: "nodeBounds (nodeOf tis) = boxOf tis"
  by (simp add: nodeOf_def updateNodeBoundsOptimized_def setBounds_def nodeBounds_def boxOf_def)

lemma emitLeaf_bounds: "nodeBounds (fst (emitLeaf n tis out)) = nodeBounds n"
  by (simp add: emitLeaf_def nodeBounds_def)

lemma setChildren_bounds: "nodeBounds (setChildren n l r) = nodeBounds n"
  by (simp add: setChildren_def nodeBounds_def)

lemma build_root_bounds:
  "nodeBounds (fst (buildNodeRecursive this tis depth out)) = boxOf tis"
proof (cases "becomesLeaf this tis depth")
  case True
  then show ?thesis by (simp add: build_leaf emitLeaf_bounds nodeOf_bounds)
next
  case False
  then show ?thesis by (simp add: build_split_node setChildren_bounds nodeOf_bounds)
qed

text \<open>The bounds of a node with two children are the union of the children's bounds.\<close>

definition boundsAreUnion :: "CWBVHNode \<Rightarrow> bool" where
  "boundsAreUnion n =
     (case (leftChild n, rightChild n) of
        (Some l, Some r) \<Rightarrow>
          boundsMin n = vmin (boundsMin l) (boundsMin r)
          \<and> boundsMax n = vmax (boundsMax l) (boundsMax r)
      | _ \<Rightarrow> True)"

lemma boundsAreUnion_iff:
  "leftChild n = Some l \<Longrightarrow> rightChild n = Some r \<Longrightarrow>
   boundsAreUnion n = (nodeBounds n = expandBounds (nodeBounds l) (nodeBounds r))"
  by (auto simp: boundsAreUnion_def nodeBounds_def expandBounds_def)

lemma build_bounds_union:
  "list_all boundsAreUnion (allNodes (fst (buildNodeRecursive this tis depth out)))"
proof (induction this tis depth out rule: build_induct)
  case (leaf this tis depth out)
  then show ?case
    by (simp add: build_leaf allNodes_emitLeaf boundsAreUnion_def emitLeaf_fields)
next
  case (split this tis depth out)
  let ?lres = "buildNodeRecursive (thisAfterSplit this tis) (leftOf this tis) (depth - 1) out"
  let ?rres = "buildNodeRecursive (snd (snd ?lres)) (rightOf this tis) (depth - 1) (fst (snd ?lres))"
  have "boundsAreUnion (setChildren (nodeOf tis) (fst ?lres) (fst ?rres))"
    by (simp add: boundsAreUnion_iff [OF setChildren_fields(1) setChildren_fields(2)]
        setChildren_bounds nodeOf_bounds build_root_bounds boxOf_split)
  then show ?case
    using split.IH by (simp add: build_split_node [OF split.hyps] allNodes_setChildren)
qed

definition nodeOk :: "CWBVHNode \<Rightarrow> bool" where
  "nodeOk n =
     ((leftChild n \<noteq> None \<and> rightChild n \<noteq> None)
      \<or> (leftChild n = None \<and> rightChild n = None \<and> triangleCount n > 0))"

lemma build_nodes_ok:
  "tis \<noteq> [] \<Longrightarrow> list_all nodeOk (allNodes (fst (buildNodeRecursive this tis depth out)))"
proof (induction this tis depth out rule: build_induct)
  case (leaf this tis depth out)
  then show ?case
    by (simp add: build_leaf allNodes_emitLeaf nodeOk_def emitLeaf_fields)
next
  case (split this tis depth out)
  from split.hyps have "leftOf this tis \<noteq> []" "rightOf this tis \<noteq> []"
    by (simp_all add: becomesLeaf_def)
  with split.IH show ?case
    by (simp add: build_split_node [OF split.hyps] allNodes_setChildren nodeOk_def setChildren_fields)
qed

lemma partition_mset:
  "mset (fst (partitionTrianglesOptimized tis a p)) + mset (snd (partitionTrianglesOptimized tis a p))
   = mset tis"
  by (simp add: partition_filter)

lemma build_out_mset:
  "mset (fst (snd (buildNodeRecursive this tis depth out))) = mset out + mset (map triangle tis)"
proof (induction this tis depth out rule: build_induct)
  case (leaf this tis depth out)
  then show ?case by (simp add: build_leaf)
next
  case (split this tis depth out)
  have "mset (map triangle (leftOf this tis)) + mset (map triangle (rightOf this tis))
        = mset (map triangle tis)"
    using partition_mset [of tis "split_axis (splitInfoOf this tis)" "split_pos (splitInfoOf this tis)"]
    by (metis leftOf_def rightOf_def image_mset_union mset_map)
  with split.IH show ?case
    by (simp add: build_split_out [OF split.hyps] add.assoc)
qed


section \<open>The configuration stays fixed during a build\<close>

definition sameConfig :: "BVHBuilder \<Rightarrow> BVHBuilder \<Rightarrow> bool" where
  "sameConfig a b =
     (maxLeafSize a = maxLeafSize b
      \<and> enableObjectMedianFallback a = enableObjectMedianFallback b
      \<and> enableSpatialMedianFallback a = enableSpatialMedianFallback b)"

lemma findBest_config:
  "sameConfig (snd (findBestSplitPositionSAH this tis n)) this"
  by (simp add: findBestSplitPositionSAH_def sameConfig_def Let_def split: prod.splits option.splits)

lemma findBest_cong:
  "sameConfig a b \<Longrightarrow> fst (findBestSplitPositionSAH a tis n) = fst (findBestSplitPositionSAH b tis n)"
  by (simp add: findBestSplitPositionSAH_def findObjectMedianSplit_def sameConfig_def Let_def
      split: prod.splits option.splits)

lemma sameConfig_entered: "sameConfig (entered a) a"
  by (simp add: sameConfig_def entered_def)

lemma sameConfig_trans: "sameConfig a b \<Longrightarrow> sameConfig b c \<Longrightarrow> sameConfig a c"
  by (simp add: sameConfig_def)

lemma sameConfig_sym: "sameConfig a b \<Longrightarrow> sameConfig b a"
  by (simp add: sameConfig_def)

lemma splitInfoOf_cong: "sameConfig a b \<Longrightarrow> splitInfoOf a tis = splitInfoOf b tis"
  unfolding splitInfoOf_def
  by (rule findBest_cong) (simp add: sameConfig_def entered_def)

lemma leftOf_cong: "sameConfig a b \<Longrightarrow> leftOf a tis = leftOf b tis"
  by (simp add: leftOf_def splitInfoOf_cong)

lemma rightOf_cong: "sameConfig a b \<Longrightarrow> rightOf a tis = rightOf b tis"
  by (simp add: rightOf_def splitInfoOf_cong)

lemma becomesLeaf_cong: "sameConfig a b \<Longrightarrow> becomesLeaf a tis d = becomesLeaf b tis d"
  using splitInfoOf_cong [of a b tis] leftOf_cong [of a b tis] rightOf_cong [of a b tis]
  by (simp add: becomesLeaf_def sameConfig_def)

lemma sameConfig_afterSplit: "sameConfig (thisAfterSplit this tis) this"
  using findBest_config [of "entered this" tis "nodeOf tis"] sameConfig_entered [of this]
  by (simp add: thisAfterSplit_def sameConfig_def)

lemma build_leaf_this:
  assumes "becomesLeaf this tis depth"
  shows "sameConfig (snd (snd (buildNodeRecursive this tis depth out))) this"
  using assms findBest_config [of "entered this" tis "nodeOf tis"]
  unfolding becomesLeaf_def leftOf_def rightOf_def splitInfoOf_def entered_def nodeOf_def
  by (auto simp: buildNodeRecursive.simps [of this tis depth out] Let_def sameConfig_def)

lemma build_split_this:
  assumes "\<not> becomesLeaf this tis depth"
  shows "snd (snd (buildNodeRecursive this tis depth out)) =
     snd (snd (buildNodeRecursive
          (snd (snd (buildNodeRecursive (thisAfterSplit this tis) (leftOf this tis) (depth - 1) out)))
          (rightOf this tis) (depth - 1)
          (fst (snd (buildNodeRecursive (thisAfterSplit this tis) (leftOf this tis) (depth - 1) out)))))"
  by (simp add: build_split [OF assms] case_prod_beta)

lemma build_config:
  "sameConfig (snd (snd (buildNodeRecursive this tis depth out))) this"
proof (induction this tis depth out rule: build_induct)
  case (leaf this tis depth out)
  then show ?case by (rule build_leaf_this)
next
  case (split this tis depth out)
  from split.IH(2) split.IH(1) have
    "sameConfig (snd (snd (buildNodeRecursive
          (snd (snd (buildNodeRecursive (thisAfterSplit this tis) (leftOf this tis) (depth - 1) out)))
          (rightOf this tis) (depth - 1)
          (fst (snd (buildNodeRecursive (thisAfterSplit this tis) (leftOf this tis) (depth - 1) out))))))
       (thisAfterSplit this tis)"
    by (rule sameConfig_trans)
  then show ?case
    using sameConfig_afterSplit [of this tis]
    by (simp add: build_split_this [OF split.hyps] sameConfig_trans)
qed

text \<open>
  The calls of \<open>buildNodeRecursive\<close> that return a leaf, in the order of the recursion,
  each with its list and its remaining depth.
\<close>

function leafCalls :: "BVHBuilder \<Rightarrow> TriangleInfo list \<Rightarrow> int \<Rightarrow> (TriangleInfo list \<times> int) list" where
  "leafCalls this tis depth =
     (if becomesLeaf this tis depth then [(tis, depth)]
      else leafCalls this (leftOf this tis) (depth - 1) @ leafCalls this (rightOf this tis) (depth - 1))"
  by pat_completeness auto

termination
  by (relation "measure (\<lambda>(this, tis, depth). length tis)")
     (simp_all add: becomesLeaf_def leftOf_def rightOf_def partition_left_shorter
        partition_right_shorter)

declare leafCalls.simps [simp del]

lemma build_leaf_calls:
  "sameConfig this this0 \<Longrightarrow>
   map triangleCount (leaves (fst (buildNodeRecursive this tis depth out)))
   = map (\<lambda>(t, d). length t) (leafCalls this0 tis depth)"
proof (induction this tis depth out rule: build_induct)
  case (leaf this tis depth out)
  then have "becomesLeaf this0 tis depth"
    using becomesLeaf_cong by blast
  with leaf show ?case
    by (simp add: build_leaf leaves_def allNodes_emitLeaf isLeaf_def emitLeaf_fields
        leafCalls.simps [of this0 tis depth])
next
  case (split this tis depth out)
  let ?lres = "buildNodeRecursive (thisAfterSplit this tis) (leftOf this tis) (depth - 1) out"
  let ?rres = "buildNodeRecursive (snd (snd ?lres)) (rightOf this tis) (depth - 1) (fst (snd ?lres))"
  have nl: "\<not> becomesLeaf this0 tis depth"
    using split.hyps split.prems becomesLeaf_cong by blast
  have c1: "sameConfig (thisAfterSplit this tis) this0"
    using sameConfig_afterSplit split.prems sameConfig_trans by blast
  have c2: "sameConfig (snd (snd ?lres)) this0"
    using build_config c1 sameConfig_trans by blast
  have lv: "leaves (fst (buildNodeRecursive this tis depth out)) = leaves (fst ?lres) @ leaves (fst ?rres)"
    by (simp add: build_split_node [OF split.hyps] leaves_def allNodes_setChildren isLeaf_def
        setChildren_fields)
  have calls: "leafCalls this0 tis depth
      = leafCalls this0 (leftOf this tis) (depth - 1) @ leafCalls this0 (rightOf this tis) (depth - 1)"
    using nl
    by (simp add: leafCalls.simps [of this0 tis depth] leftOf_cong [OF split.prems, symmetric]
        rightOf_cong [OF split.prems, symmetric])
  show ?case
    using split.IH(1) [OF c1] split.IH(2) [OF c2]
    by (simp add: lv calls)
qed

lemma leafCalls_why:
  "list_all (\<lambda>(t, d). becomesLeaf this t d) (leafCalls this tis depth)"
  by (induction this tis depth rule: leafCalls.induct)
     (subst leafCalls.simps, simp)


section \<open>Presorting permutes the triangles\<close>

text \<open>
  Presorting only reorders the records and rewrites their \<open>mortonCode\<close>: whatever a field
  \<open>g\<close> that ignores \<open>mortonCode\<close> reads from them is kept, as a multiset.
\<close>

lemma sortTriangles_mset:
  assumes "\<And>t c. g (t\<lparr> mortonCode := c \<rparr>) = g t"
  shows "mset (map g (sortTrianglesByMortonCode this tis)) = mset (map g tis)"
proof -
  have m: "map g (map (\<lambda>t. t\<lparr> mortonCode := f t \<rparr>) xs) = map g xs" for f xs
    by (induction xs) (simp_all add: assms)
  have "mset (map g (sort_key mortonCode ys)) = mset (map g ys)" for ys
    by simp
  from this [of "map (\<lambda>t. t\<lparr> mortonCode := f t \<rparr>) tis" for f]
  have "mset (map g (sort_key mortonCode (map (\<lambda>t. t\<lparr> mortonCode := f t \<rparr>) tis)))
             = mset (map g tis)" for f
    by (simp only: m)
  then show ?thesis
    by (simp add: sortTrianglesByMortonCode_def split: option.splits del: mset_map)
qed

lemma clusterPush_mset:
  "mset (concat (map snd (clusterPush k t cl))) = mset (concat (map snd cl)) + {#t#}"
  by (induction k t cl rule: clusterPush.induct) simp_all

lemma clusters_mset:
  "mset (concat (map snd (fold (\<lambda>t. clusterPush (f t) t) tis cl)))
   = mset (concat (map snd cl)) + mset tis"
  by (induction tis arbitrary: cl) (simp_all add: clusterPush_mset)

lemma concat_sorted_clusters_mset:
  assumes "\<And>t c. g (t\<lparr> mortonCode := c \<rparr>) = g t"
  shows "mset (map g (concat (map (\<lambda>(code, cluster). sortTrianglesByMortonCode this cluster) cl)))
   = mset (map g (concat (map snd cl)))"
proof (induction cl)
  case Nil
  then show ?case by simp
next
  case (Cons c cl)
  then show ?case
    using sortTriangles_mset [of g this "snd c", OF assms]
    by (cases c) simp
qed

lemma concat_sort_key_mset:
  "mset (concat (map snd (sort_key fst cl))) = mset (concat (map snd cl))"
proof -
  have h: "mset (concat (map snd xs)) = (\<Sum>\<^sub># (image_mset (\<lambda>p. mset (snd p)) (mset xs)))"
    for xs :: "('k \<times> 'v list) list"
    by (induction xs) simp_all
  show ?thesis
    by (simp only: h mset_sort)
qed

lemma recursiveMortonCluster_mset:
  assumes "\<And>t c. g (t\<lparr> mortonCode := c \<rparr>) = g t"
  shows "mset (map g (recursiveMortonCluster this tis m)) = mset (map g tis)"
proof -
  have "mset (map g (concat (map (\<lambda>(code, cluster). sortTrianglesByMortonCode this cluster)
           (sort_key fst (fold (\<lambda>t. clusterPush (f t) t) tis [])))))
        = mset (map g tis)" (is "?lhs = _") for f
  proof -
    let ?C = "fold (\<lambda>t. clusterPush (f t) t) tis []"
    have "?lhs = mset (map g (concat (map snd (sort_key fst ?C))))"
      by (rule concat_sorted_clusters_mset [OF assms])
    also have "\<dots> = image_mset g (mset (concat (map snd (sort_key fst ?C))))"
      by (simp only: mset_map)
    also have "\<dots> = image_mset g (mset (concat (map snd ?C)))"
      by (simp only: concat_sort_key_mset)
    also have "\<dots> = image_mset g (mset tis)"
      using clusters_mset [of f tis "[]"] by simp
    finally show ?thesis
      by (simp only: mset_map)
  qed
  then show ?thesis
    unfolding recursiveMortonCluster_def Let_def
    by (simp only: sortTriangles_mset [of g, OF assms] split: option.splits prod.splits if_splits)
       simp
qed

lemma presort_mset:
  assumes "\<And>t c. g (t\<lparr> mortonCode := c \<rparr>) = g t"
  shows "mset (map g (presort this tis)) = mset (map g tis)"
  by (simp add: presort_def recursiveMortonCluster_mset [of g, OF assms]
      sortTriangles_mset [of g, OF assms] del: mset_map)

lemma presort_triangles:
  "mset (map triangle (presort this tis)) = mset (map triangle tis)"
  by (rule presort_mset) simp

lemma presort_centroids:
  "mset (map centroid (presort this tis)) = mset (map centroid tis)"
  by (rule presort_mset) simp

lemma presort_length: "length (presort this tis) = length tis"
proof -
  have "size (mset (map triangle (presort this tis))) = size (mset (map triangle tis))"
    by (simp only: presort_triangles)
  then show ?thesis by simp
qed

lemma triangle_toTriangleInfos: "map triangle (toTriangleInfos ts) = ts"
proof -
  have "map triangle (map (\<lambda>(tri, i). newTriangleInfo tri i) (zip xs ns)) = xs"
    if "length ns = length xs" for xs :: "Triangle list" and ns
    using that by (induction xs ns rule: list_induct2') (simp_all add: newTriangleInfo_def)
  then show ?thesis
    by (simp add: toTriangleInfos_def)
qed

section \<open>The range of the centroids on an axis\<close>

lemma ext_min_Fin [simp]: "min (Fin a) (Fin b) = Fin (min a b)"
  by (simp add: min_def)

lemma ext_max_Fin [simp]: "max (Fin a) (Fin b) = Fin (max a b)"
  by (simp add: max_def)

lemma ext_max_top [simp]: "max (x :: ext) Infinity = Infinity"
  by (simp add: max_absorb2)

text \<open>The running minimum and maximum of a component over a list, from finite values.\<close>

lemma range_fold_fin:
  "\<exists>lo hi.
     fold (\<lambda>t (mn, mx). (min mn (Fin (f t)), max mx (Fin (f t)))) tis (Fin a, Fin b)
       = (Fin lo, Fin hi)
     \<and> lo \<le> a \<and> b \<le> hi
     \<and> (\<forall>t \<in> set tis. lo \<le> f t \<and> f t \<le> hi)
     \<and> (lo = a \<or> (\<exists>t \<in> set tis. f t = lo))
     \<and> (hi = b \<or> (\<exists>t \<in> set tis. f t = hi))"
proof (induction tis arbitrary: a b)
  case Nil
  then show ?case by simp
next
  case (Cons t tis)
  obtain lo hi where
    f: "fold (\<lambda>t (mn, mx). (min mn (Fin (f t)), max mx (Fin (f t)))) tis
          (Fin (min a (f t)), Fin (max b (f t))) = (Fin lo, Fin hi)"
    and lo: "lo \<le> min a (f t)" and hi: "max b (f t) \<le> hi"
    and all: "\<forall>u \<in> set tis. lo \<le> f u \<and> f u \<le> hi"
    and alo: "lo = min a (f t) \<or> (\<exists>u \<in> set tis. f u = lo)"
    and ahi: "hi = max b (f t) \<or> (\<exists>u \<in> set tis. f u = hi)"
    using Cons.IH [of "min a (f t)" "max b (f t)"] by blast
  have "fold (\<lambda>t (mn, mx). (min mn (Fin (f t)), max mx (Fin (f t)))) (t # tis) (Fin a, Fin b)
        = (Fin lo, Fin hi)"
    using f by simp
  moreover have "lo \<le> a" "b \<le> hi" "lo \<le> f t" "f t \<le> hi"
    using lo hi by simp_all
  moreover have "lo = a \<or> (\<exists>u \<in> set (t # tis). f u = lo)"
    using alo by (auto simp: min_def split: if_splits)
  moreover have "hi = b \<or> (\<exists>u \<in> set (t # tis). f u = hi)"
    using ahi by (auto simp: max_def split: if_splits)
  ultimately show ?case
    using all by auto
qed

lemma range_fold:
  assumes "tis \<noteq> []"
  shows "\<exists>lo hi.
     fold (\<lambda>t (mn, mx). (min mn (Fin (f t)), max mx (Fin (f t)))) tis (Infinity, NegInfinity)
       = (Fin lo, Fin hi)
     \<and> (\<forall>t \<in> set tis. lo \<le> f t \<and> f t \<le> hi)
     \<and> (\<exists>t \<in> set tis. f t = lo)
     \<and> (\<exists>t \<in> set tis. f t = hi)"
proof -
  from assms obtain t ts where tis: "tis = t # ts"
    by (cases tis) auto
  obtain lo hi where
    f: "fold (\<lambda>t (mn, mx). (min mn (Fin (f t)), max mx (Fin (f t)))) ts (Fin (f t), Fin (f t))
          = (Fin lo, Fin hi)"
    and lo: "lo \<le> f t" and hi: "f t \<le> hi"
    and all: "\<forall>u \<in> set ts. lo \<le> f u \<and> f u \<le> hi"
    and alo: "lo = f t \<or> (\<exists>u \<in> set ts. f u = lo)"
    and ahi: "hi = f t \<or> (\<exists>u \<in> set ts. f u = hi)"
    using range_fold_fin [of f ts "f t" "f t"] by blast
  have "fold (\<lambda>t (mn, mx). (min mn (Fin (f t)), max mx (Fin (f t)))) tis (Infinity, NegInfinity)
        = (Fin lo, Fin hi)"
    using f by (simp add: tis)
  moreover have "\<forall>u \<in> set tis. lo \<le> f u \<and> f u \<le> hi"
    using all lo hi by (simp add: tis)
  moreover have "\<exists>u \<in> set tis. f u = lo" "\<exists>u \<in> set tis. f u = hi"
    using alo ahi by (auto simp: tis)
  ultimately show ?thesis by blast
qed

lemma centroidRange_nonempty:
  assumes "tis \<noteq> []"
  shows "\<exists>lo hi. centroidRange tis axis = (Fin lo, Fin hi)
     \<and> (\<forall>t \<in> set tis. lo \<le> getComponent (centroid t) axis \<and> getComponent (centroid t) axis \<le> hi)
     \<and> (\<exists>t \<in> set tis. getComponent (centroid t) axis = lo)
     \<and> (\<exists>t \<in> set tis. getComponent (centroid t) axis = hi)"
  unfolding centroidRange_def
  using range_fold [OF assms, of "\<lambda>t. getComponent (centroid t) axis"] by simp



lemma countLeft_filter:
  "countLeft tis a p = length (filter (\<lambda>t. getComponent (centroid t) a \<le> p) tis)"
proof -
  have "fold (\<lambda>triInfo leftCount.
           if getComponent (centroid triInfo) a \<le> p then leftCount + 1 else leftCount) xs k
        = k + length (filter (\<lambda>t. getComponent (centroid t) a \<le> p) xs)"
    for xs :: "TriangleInfo list" and k :: nat
    by (induction xs arbitrary: k) simp_all
  then show ?thesis
    by (simp add: countLeft_def)
qed

section \<open>Triangles that share one centroid\<close>

text \<open>Triangles that share one centroid cannot be split by any tier.\<close>

lemma same_centroid_range:
  assumes "tis \<noteq> []" and "\<forall>t \<in> set tis. centroid t = c"
  shows "centroidRange tis axis = (Fin (getComponent c axis), Fin (getComponent c axis))"
  using centroidRange_nonempty [OF assms(1), of axis] assms(2) by auto

lemma same_centroid_spatial:
  assumes "\<forall>t \<in> set tis. centroid t = c"
  shows "\<not> success (findSpatialMedianSplit tis)"
proof -
  have side: "countLeft tis a p = 0 \<or> length tis - countLeft tis a p = 0" for a p
  proof (cases "getComponent c a \<le> p")
    case True
    with assms have "filter (\<lambda>t. getComponent (centroid t) a \<le> p) tis = tis"
      by (simp add: filter_id_conv)
    then show ?thesis by (simp add: countLeft_filter)
  next
    case False
    with assms have "filter (\<lambda>t. getComponent (centroid t) a \<le> p) tis = []"
      by (simp add: filter_empty_conv)
    then show ?thesis by (simp add: countLeft_filter)
  qed
  have nth: "sort (map (\<lambda>tri. getComponent (centroid tri) a) tis) ! i = getComponent c a"
    if "i < length tis" for a i
  proof -
    have "sort (map (\<lambda>tri. getComponent (centroid tri) a) tis) ! i
          \<in> set (sort (map (\<lambda>tri. getComponent (centroid tri) a) tis))"
      using that by (intro nth_mem) simp
    then show ?thesis
      using assms by auto
  qed
  show ?thesis
  proof (cases "tis = []")
    case True
    then show ?thesis
      by (simp add: findSpatialMedianSplit_def widestAxis_def axes_def boundsRange_def)
  next
    case False
    then have "0 < length tis" by simp
    then have "sort (map (\<lambda>tri. getComponent (centroid tri) a) tis) ! 0
             = sort (map (\<lambda>tri. getComponent (centroid tri) a) tis) ! (length tis - 1)" for a
      by (simp add: nth)
    then show ?thesis
      using side
      by (auto simp: findSpatialMedianSplit_def Let_def split: prod.splits option.splits)
  qed
qed

lemma same_centroid_sah:
  assumes "tis \<noteq> []" and "\<forall>t \<in> set tis. centroid t = c"
  shows "fold (sahAxis tis node) axes best = best"
  by (simp add: axes_def sahAxis_def same_centroid_range [OF assms])

lemma same_centroid_object_median:
  assumes "tis \<noteq> []" and "\<forall>t \<in> set tis. centroid t = c"
  shows "\<not> success (findObjectMedianSplit this tis)"
  using same_centroid_spatial [OF assms(2)]
  by (simp add: findObjectMedianSplit_def widestAxis_def axes_def same_centroid_range [OF assms])

lemma same_centroid_no_split:
  assumes "tis \<noteq> []" and "\<forall>t \<in> set tis. centroid t = c"
  shows "\<not> success (fst (findBestSplitPositionSAH this tis node))"
  using same_centroid_spatial [OF assms(2)] same_centroid_object_median [OF assms]
  by (simp add: findBestSplitPositionSAH_def Let_def same_centroid_sah [OF assms])

section \<open>When a split is found\<close>
















text \<open>
  Centroids spread along the axes: on every axis the components are pairwise distinct, and
  on some axis two of them are at least \<open>1e-10\<close> apart.
\<close>

definition axisSpread :: "TriangleInfo list \<Rightarrow> bool" where
  "axisSpread tis =
     ((\<forall>a. distinct (map (\<lambda>t. getComponent (centroid t) a) tis))
      \<and> (\<exists>a. \<exists>s \<in> set tis. \<exists>t \<in> set tis.
            1 / 10 ^ 10 \<le> getComponent (centroid s) a - getComponent (centroid t) a))"




lemma axisSpread_cong:
  assumes "mset (map centroid xs) = mset (map centroid ys)"
  shows "axisSpread xs = axisSpread ys"
proof -
  have d: "distinct (map (\<lambda>t. getComponent (centroid t) a) xs)
           = distinct (map (\<lambda>t. getComponent (centroid t) a) ys)" for a
  proof -
    have "mset (map (\<lambda>c. getComponent c a) (map centroid xs))
          = mset (map (\<lambda>c. getComponent c a) (map centroid ys))"
      using assms by (simp only: mset_map)
    then have "mset (map (\<lambda>t. getComponent (centroid t) a) xs)
          = mset (map (\<lambda>t. getComponent (centroid t) a) ys)"
      by (simp add: comp_def)
    then show ?thesis
      by (rule mset_eq_imp_distinct_iff)
  qed
  have "set (map centroid xs) = set (map centroid ys)"
    using assms by (rule mset_eq_setD)
  then have s: "centroid ` set xs = centroid ` set ys"
    by simp
  have e: "(\<exists>s \<in> set zs. \<exists>t \<in> set zs.
              1 / 10 ^ 10 \<le> getComponent (centroid s) a - getComponent (centroid t) a)
           = (\<exists>c \<in> centroid ` set zs. \<exists>c' \<in> centroid ` set zs.
              1 / 10 ^ 10 \<le> getComponent c a - getComponent c' a)"
    for zs :: "TriangleInfo list" and a
    by auto
  show ?thesis
    unfolding axisSpread_def d e s ..
qed





section \<open>Leaves and the calls that made them\<close>

lemma leafCalls_depth:
  "0 \<le> depth \<Longrightarrow> list_all (\<lambda>(t, d). 0 \<le> d) (leafCalls this tis depth)"
proof (induction this tis depth rule: leafCalls.induct)
  case (1 this tis depth)
  show ?case
  proof (cases "becomesLeaf this tis depth")
    case True
    with "1.prems" show ?thesis
      by (simp add: leafCalls.simps [of this tis depth])
  next
    case False
    then have "0 \<le> depth - 1"
      by (simp add: becomesLeaf_def)
    with False "1.IH" show ?thesis
      by (simp add: leafCalls.simps [of this tis depth])
  qed
qed

lemma map_eq_list_all2:
  "map f xs = map g ys \<Longrightarrow> list_all2 (\<lambda>x y. f x = g y) xs ys"
proof (induction xs arbitrary: ys)
  case Nil
  then show ?case by simp
next
  case (Cons x xs)
  then show ?case by (cases ys) auto
qed

text \<open>
  The leaves of the tree that \<open>buildSync\<close> returns, each paired with the call of
  \<open>buildNodeRecursive\<close> that emitted it: the list of that call and its remaining depth.
\<close>

definition leafOrigins ::
    "BVHBuilder \<Rightarrow> Triangle list \<Rightarrow> int \<Rightarrow> (CWBVHNode \<times> TriangleInfo list \<times> int) list" where
  "leafOrigins this triangles depth =
     zip (leaves (fst (buildSync this triangles depth [])))
         (leafCalls (resetState this triangles)
            (presort (resetState this triangles) (toTriangleInfos triangles)) depth)"

lemma sameConfig_refl: "sameConfig a a"
  by (simp add: sameConfig_def)

lemma leaves_match_calls:
  "list_all2 (\<lambda>leaf (t, d). triangleCount leaf = length t)
     (leaves (fst (buildSync this triangles depth out)))
     (leafCalls (resetState this triangles)
        (presort (resetState this triangles) (toTriangleInfos triangles)) depth)"
proof -
  have "list_all2 (\<lambda>leaf c. triangleCount leaf = (case c of (t, d) \<Rightarrow> length t))
     (leaves (fst (buildSync this triangles depth out)))
     (leafCalls (resetState this triangles)
        (presort (resetState this triangles) (toTriangleInfos triangles)) depth)"
    unfolding buildSync_def
    by (rule map_eq_list_all2) (rule build_leaf_calls [OF sameConfig_refl])
  then show ?thesis
    by (simp add: case_prod_unfold)
qed

lemma buildSync_lengths:
  "length (presort (resetState this triangles) (toTriangleInfos triangles)) = length triangles"
  by (simp add: presort_length toTriangleInfos_def)

section \<open>The recursion is total\<close>

text \<open>
  Every call of \<open>buildNodeRecursive\<close> is in the domain of the recursion: the calls it makes
  are on strictly shorter lists, whatever the depth budget.
\<close>

lemma buildNodeRecursive_total: "buildNodeRecursive_dom x"
proof -
  have "(a, b) \<in> measure (\<lambda>(this, tis, depth, out). length tis)"
    if "buildNodeRecursive_rel a b" for a b
    using that
    by (cases rule: buildNodeRecursive_rel.cases)
       (simp_all add: partition_left_shorter partition_right_shorter)
  then have "{(a, b). buildNodeRecursive_rel a b}
             \<subseteq> measure (\<lambda>(this, tis, depth, out). length tis)"
    by blast
  then have "wf {(a, b). buildNodeRecursive_rel a b}"
    by (rule wf_subset [OF wf_measure])
  then have "wfp buildNodeRecursive_rel"
    by (simp add: wfp_def)
  then show ?thesis
    by (rule accp_wfpD)
qed

section \<open>The range of doubles: overflow in the bin placement\<close>

text \<open>
  The development above reads a coordinate as an exact rational. A double has a largest
  finite value: a sum beyond it is \<open>Infinity\<close>, and \<open>Infinity - Infinity\<close> is \<open>NaN\<close>.
  This section follows the numbers of the source through the statements that meet such
  values, on a number type with the two infinities and \<open>NaN\<close>.
\<close>

datatype jsnum = Num rat | PosInf | NegInf | NaN

text \<open>
  A result at or beyond \<open>2^1024 - 2^970\<close> in magnitude rounds to an infinity. Inside the
  range a number stands for itself: rounding to the nearest double is not modelled, and a
  zero is taken as \<open>+0\<close>.
\<close>

definition overflowBound :: rat where
  "overflowBound = 2 ^ 1024 - 2 ^ 970"

definition toDouble :: "rat \<Rightarrow> jsnum" where
  "toDouble r =
     (if overflowBound \<le> r then PosInf else if r \<le> - overflowBound then NegInf else Num r)"

fun jsNeg :: "jsnum \<Rightarrow> jsnum" where
  "jsNeg (Num a) = Num (- a)"
| "jsNeg PosInf = NegInf"
| "jsNeg NegInf = PosInf"
| "jsNeg NaN = NaN"

fun jsAdd :: "jsnum \<Rightarrow> jsnum \<Rightarrow> jsnum" where
  "jsAdd (Num a) (Num b) = toDouble (a + b)"
| "jsAdd NaN _ = NaN"
| "jsAdd _ NaN = NaN"
| "jsAdd PosInf NegInf = NaN"
| "jsAdd NegInf PosInf = NaN"
| "jsAdd PosInf _ = PosInf"
| "jsAdd _ PosInf = PosInf"
| "jsAdd NegInf _ = NegInf"
| "jsAdd _ NegInf = NegInf"

definition jsSub :: "jsnum \<Rightarrow> jsnum \<Rightarrow> jsnum" where
  "jsSub a b = jsAdd a (jsNeg b)"

fun jsMul :: "jsnum \<Rightarrow> jsnum \<Rightarrow> jsnum" where
  "jsMul (Num a) (Num b) = toDouble (a * b)"
| "jsMul NaN _ = NaN"
| "jsMul _ NaN = NaN"
| "jsMul (Num a) i = (if a = 0 then NaN else if 0 < a then i else jsNeg i)"
| "jsMul i (Num b) = (if b = 0 then NaN else if 0 < b then i else jsNeg i)"
| "jsMul i j = (if i = j then PosInf else NegInf)"

fun jsDiv :: "jsnum \<Rightarrow> jsnum \<Rightarrow> jsnum" where
  "jsDiv (Num a) (Num b) =
     (if b = 0 then (if a = 0 then NaN else if 0 < a then PosInf else NegInf)
      else toDouble (a / b))"
| "jsDiv NaN _ = NaN"
| "jsDiv _ NaN = NaN"
| "jsDiv (Num a) i = Num 0"
| "jsDiv i (Num b) = (if 0 \<le> b then i else jsNeg i)"
| "jsDiv i j = NaN"

fun jsFloor :: "jsnum \<Rightarrow> jsnum" where
  "jsFloor (Num a) = Num (of_int \<lfloor>a\<rfloor>)"
| "jsFloor i = i"

fun mathMin :: "jsnum \<Rightarrow> jsnum \<Rightarrow> jsnum" where
  "mathMin (Num a) (Num b) = Num (min a b)"
| "mathMin NaN _ = NaN"
| "mathMin _ NaN = NaN"
| "mathMin NegInf _ = NegInf"
| "mathMin _ NegInf = NegInf"
| "mathMin PosInf b = b"
| "mathMin a PosInf = a"

fun mathMax :: "jsnum \<Rightarrow> jsnum \<Rightarrow> jsnum" where
  "mathMax (Num a) (Num b) = Num (max a b)"
| "mathMax NaN _ = NaN"
| "mathMax _ NaN = NaN"
| "mathMax PosInf _ = PosInf"
| "mathMax _ PosInf = PosInf"
| "mathMax NegInf b = b"
| "mathMax a NegInf = a"

fun jsLess :: "jsnum \<Rightarrow> jsnum \<Rightarrow> bool" where
  "jsLess (Num a) (Num b) = (a < b)"
| "jsLess NaN _ = False"
| "jsLess _ NaN = False"
| "jsLess _ NegInf = False"
| "jsLess PosInf _ = False"
| "jsLess NegInf _ = True"
| "jsLess _ PosInf = True"

text \<open>One component of the centroid in \<open>TriangleInfo\<close>: \<open>(a + b + c) / 3\<close>.\<close>

definition centroidComponentJS :: "jsnum \<Rightarrow> jsnum \<Rightarrow> jsnum \<Rightarrow> jsnum" where
  "centroidComponentJS a b c = jsDiv (jsAdd (jsAdd a b) c) (Num 3)"

text \<open>
  The first statements of the loop over an axis in \<open>findBestSplitPositionSAH\<close>, on the
  centroid components of the triangles: the range, the test that skips a degenerate axis,
  the scale, and the placement of each triangle in its bin.
\<close>

definition centroidRangeJS :: "jsnum list \<Rightarrow> jsnum \<times> jsnum" where
  "centroidRangeJS cs =
     fold (\<lambda>c (minCentroid, maxCentroid). (mathMin minCentroid c, mathMax maxCentroid c))
          cs (PosInf, NegInf)"

definition binIndexJS :: "jsnum \<Rightarrow> jsnum \<Rightarrow> jsnum \<Rightarrow> nat \<Rightarrow> jsnum" where
  "binIndexJS c minCentroid binScale currentBinCount =
     mathMin (jsFloor (jsMul (jsSub c minCentroid) binScale)) (Num (of_nat currentBinCount - 1))"

text \<open>
  \<open>this.binBounds[binIndex]\<close> is an element of the array, which has \<open>maxBins\<close> entries,
  when the index is an integer in range, and \<open>undefined\<close> otherwise; \<open>expandBounds\<close>
  then reads \<open>targetBounds.min\<close> of \<open>undefined\<close> and throws a \<open>TypeError\<close>.
\<close>

definition binSlot :: "jsnum \<Rightarrow> nat option" where
  "binSlot binIndex =
     (case binIndex of
        Num r \<Rightarrow> if of_int \<lfloor>r\<rfloor> = r \<and> 0 \<le> r \<and> r < of_nat maxBins then Some (nat \<lfloor>r\<rfloor>) else None
      | _ \<Rightarrow> None)"

datatype JsError = TypeError

fun placeTrianglesJS ::
    "jsnum \<Rightarrow> jsnum \<Rightarrow> nat \<Rightarrow> jsnum list \<Rightarrow> nat list \<Rightarrow> JsError + nat list" where
  "placeTrianglesJS minCentroid binScale currentBinCount [] binCounts = Inr binCounts"
| "placeTrianglesJS minCentroid binScale currentBinCount (c # cs) binCounts =
     (case binSlot (binIndexJS c minCentroid binScale currentBinCount) of
        None \<Rightarrow> Inl TypeError
      | Some k \<Rightarrow>
          placeTrianglesJS minCentroid binScale currentBinCount cs
            (binCounts[k := binCounts ! k + 1]))"

definition sahPlacementJS :: "jsnum list \<Rightarrow> JsError + nat list option" where
  "sahPlacementJS cs =
     (let minCentroid = fst (centroidRangeJS cs); maxCentroid = snd (centroidRangeJS cs)
      in if jsLess (jsSub maxCentroid minCentroid) (Num (1 / 10 ^ 6)) then Inr None
         else
           (let currentBinCount = getOptimalBinCount (length cs);
                binScale = jsDiv (Num (of_nat currentBinCount)) (jsSub maxCentroid minCentroid)
            in case placeTrianglesJS minCentroid binScale currentBinCount cs
                      (replicate currentBinCount 0) of
                 Inl e \<Rightarrow> Inl e
               | Inr binCounts \<Rightarrow> Inr (Some binCounts)))"

lemma overflowBound_large: "2 ^ 1023 < overflowBound"
  by (simp add: overflowBound_def)

lemma toDouble_Num: "\<bar>r\<bar> \<le> 2 ^ 1023 \<Longrightarrow> toDouble r = Num r"
  using overflowBound_large by (auto simp: toDouble_def abs_le_iff)

text \<open>On small numbers the placement fills the bins as the exact reading does.\<close>

lemma sahPlacementJS_small:
  "sahPlacementJS [Num 0, Num 8] = Inr (Some ((replicate 8 0)[0 := 1, 7 := 1]))"
  by (simp add: sahPlacementJS_def centroidRangeJS_def jsSub_def getOptimalBinCount_def
      minBins_def maxBins_def binIndexJS_def binSlot_def toDouble_Num)

text \<open>
  The centroid component that \<open>TriangleInfo\<close> computes from the vertices of a triangle,
  in this arithmetic, and the test whether the placement throws on one of the three axes
  for a list of triangles.
\<close>

definition centroidJS :: "Triangle \<Rightarrow> Axis \<Rightarrow> jsnum" where
  "centroidJS tri axis =
     centroidComponentJS (Num (getComponent (posA tri) axis)) (Num (getComponent (posB tri) axis))
       (Num (getComponent (posC tri) axis))"

definition placementThrows :: "Triangle list \<Rightarrow> bool" where
  "placementThrows triangles =
     list_ex (\<lambda>axis. sahPlacementJS (map (\<lambda>tri. centroidJS tri axis) triangles) = Inl TypeError) axes"

text \<open>
  A triangle is in range when none of its nine coordinates exceeds \<open>2^1000\<close> in
  magnitude. Sums of three such numbers and differences of two stay below the largest
  double.
\<close>

definition coordinateBound :: rat where
  "coordinateBound = 2 ^ 1000"

definition inRange :: "Triangle \<Rightarrow> bool" where
  "inRange tri =
     list_all (\<lambda>p. list_all (\<lambda>axis. \<bar>getComponent p axis\<bar> \<le> coordinateBound) axes)
       [posA tri, posB tri, posC tri]"

lemma coordinateBound_pos: "64 * 10 ^ 6 \<le> coordinateBound"
  by (simp add: coordinateBound_def)

lemma coordinateBound_small: "4 * coordinateBound < overflowBound"
  by (simp add: coordinateBound_def overflowBound_def)

lemma toDouble_small: "\<bar>r\<bar> \<le> 4 * coordinateBound \<Longrightarrow> toDouble r = Num r"
  by (rule toDouble_Num) (simp add: coordinateBound_def)

lemma toDouble_nonneg: "0 \<le> r \<Longrightarrow> r < overflowBound \<Longrightarrow> toDouble r = Num r"
  by (simp add: toDouble_def)

lemma centroidComponentJS_inRange:
  assumes "\<bar>a\<bar> \<le> coordinateBound" "\<bar>b\<bar> \<le> coordinateBound" "\<bar>c\<bar> \<le> coordinateBound"
  shows "centroidComponentJS (Num a) (Num b) (Num c) = Num ((a + b + c) / 3)"
    and "\<bar>(a + b + c) / 3\<bar> \<le> coordinateBound"
proof -
  have ab: "toDouble (a + b) = Num (a + b)"
    using assms by (intro toDouble_small) linarith
  have abc: "toDouble (a + b + c) = Num (a + b + c)"
    using assms by (intro toDouble_small) linarith
  show third: "\<bar>(a + b + c) / 3\<bar> \<le> coordinateBound"
    using assms by simp
  have t: "toDouble ((a + b + c) / 3) = Num ((a + b + c) / 3)"
    using third coordinateBound_pos by (intro toDouble_small) linarith
  show "centroidComponentJS (Num a) (Num b) (Num c) = Num ((a + b + c) / 3)"
    by (simp add: centroidComponentJS_def ab abc t)
qed

lemma centroidJS_inRange:
  assumes "inRange tri"
  shows "\<exists>r. centroidJS tri axis = Num r \<and> \<bar>r\<bar> \<le> coordinateBound"
proof -
  have "\<bar>getComponent (posA tri) axis\<bar> \<le> coordinateBound"
    "\<bar>getComponent (posB tri) axis\<bar> \<le> coordinateBound"
    "\<bar>getComponent (posC tri) axis\<bar> \<le> coordinateBound"
    using assms by (cases axis; simp add: inRange_def axes_def)+
  note c = centroidComponentJS_inRange [OF this]
  show ?thesis
    unfolding centroidJS_def by (intro exI conjI) (rule c(1), rule c(2))
qed

lemma rangeJS_fold:
  "fold (\<lambda>c (minCentroid, maxCentroid). (mathMin minCentroid c, mathMax maxCentroid c))
        (map Num rs) (Num lo, Num hi)
   = (Num (fold min rs lo), Num (fold max rs hi))"
  by (induction rs arbitrary: lo hi) (simp_all add: min.commute max.commute)

lemma fold_min_le: "fold min rs (lo::rat) \<le> lo \<and> (\<forall>r \<in> set rs. fold min rs lo \<le> r)
    \<and> fold min rs lo \<in> insert lo (set rs)"
proof -
  have "fold min rs lo = Min (set (lo # rs))"
    by (simp only: Min.set_eq_fold)
  then show ?thesis
    using Min_le [of "set (lo # rs)"] Min_in [of "set (lo # rs)"] by auto
qed

lemma fold_max_ge: "hi \<le> fold max rs (hi::rat) \<and> (\<forall>r \<in> set rs. r \<le> fold max rs hi)
    \<and> fold max rs hi \<in> insert hi (set rs)"
proof -
  have "fold max rs hi = Max (set (hi # rs))"
    by (simp only: Max.set_eq_fold)
  then show ?thesis
    using Max_ge [of "set (hi # rs)"] Max_in [of "set (hi # rs)"] by auto
qed

lemma centroidRangeJS_Num:
  assumes "rs \<noteq> []"
  shows "\<exists>lo hi. centroidRangeJS (map Num rs) = (Num lo, Num hi)
           \<and> lo \<in> set rs \<and> hi \<in> set rs \<and> (\<forall>r \<in> set rs. lo \<le> r \<and> r \<le> hi)"
proof -
  from assms obtain r rs' where rs: "rs = r # rs'"
    by (cases rs) auto
  have "centroidRangeJS (map Num rs) = (Num (fold min rs' r), Num (fold max rs' r))"
    by (simp add: centroidRangeJS_def rs rangeJS_fold)
  with fold_min_le [of rs' r] fold_max_ge [of r rs'] show ?thesis
    unfolding rs by (intro exI conjI) auto
qed

lemma binCount_bounds: "1 \<le> getOptimalBinCount n \<and> getOptimalBinCount n \<le> maxBins"
  by (simp add: getOptimalBinCount_def minBins_def maxBins_def)

lemma overflowBound_64: "64 < overflowBound"
  by (simp add: overflowBound_def)

lemma overflowBound_scale: "64 / (1 / 10 ^ 6) < overflowBound"
  by (simp add: overflowBound_def)

lemma binSlot_ok:
  assumes "lo \<le> r" "r \<le> hi" "lo < hi" "1 \<le> n" "n \<le> maxBins"
    and "hi - lo < overflowBound"
  shows "\<exists>k. binSlot (binIndexJS (Num r) (Num lo) (Num (of_nat n / (hi - lo))) n) = Some k"
proof -
  let ?x = "(r - lo) * (of_nat n / (hi - lo))"
  have d: "toDouble (r - lo) = Num (r - lo)"
    using assms by (intro toDouble_nonneg) linarith+
  have "0 \<le> r - lo" "r - lo \<le> hi - lo" "0 < hi - lo"
    using assms by simp_all
  then have "(r - lo) / (hi - lo) \<le> 1" "0 \<le> (r - lo) / (hi - lo)"
    by (simp_all add: divide_le_eq)
  then have "of_nat n * ((r - lo) / (hi - lo)) \<le> (of_nat n :: rat) * 1"
    by (intro mult_left_mono) simp_all
  then have x2: "?x \<le> of_nat n"
    by (simp add: mult.commute)
  have x1: "0 \<le> ?x"
    using \<open>0 \<le> r - lo\<close> \<open>0 < hi - lo\<close> by simp
  have "of_nat n \<le> (64 :: rat)"
    using assms(5) by (simp add: maxBins_def)
  with x2 overflowBound_64 have "?x < overflowBound"
    by linarith
  with x1 have m: "toDouble ?x = Num ?x"
    by (rule toDouble_nonneg)
  have k: "0 \<le> \<lfloor>?x\<rfloor>"
    using x1 by simp
  define j where "j = min \<lfloor>?x\<rfloor> (int n - 1)"
  have mn: "min (of_int \<lfloor>?x\<rfloor>) (of_nat n - 1 :: rat) = of_int j"
    by (simp add: min_def j_def)
  have j: "0 \<le> j" "j < int maxBins"
    using k assms(4,5) by (auto simp: j_def)
  have 1: "jsSub (Num r) (Num lo) = Num (r - lo)"
    by (simp add: jsSub_def d)
  have 2: "jsMul (Num (r - lo)) (Num (of_nat n / (hi - lo))) = Num ?x"
    by (simp only: jsMul.simps m)
  have 3: "mathMin (Num (of_int \<lfloor>?x\<rfloor>)) (Num (of_nat n - 1)) = Num (of_int j)"
    by (simp only: mathMin.simps mn)
  have "binIndexJS (Num r) (Num lo) (Num (of_nat n / (hi - lo))) n = Num (of_int j)"
    by (simp only: binIndexJS_def 1 2 jsFloor.simps 3)
  moreover have "binSlot (Num (of_int j)) = Some (nat j)"
    using j by (simp add: binSlot_def)
  ultimately show ?thesis
    by simp
qed

text \<open>
  The placement throws as soon as one triangle has no bin. On finite centroids it throws
  exactly when the range overflows; it throws when some centroid is not finite.
\<close>

lemma not_thrown:
  assumes "x \<noteq> Inl TypeError"
  shows "\<exists>b. x = Inr b"
proof (cases x)
  case (Inl e)
  with assms show ?thesis by (cases e) simp
next
  case (Inr b)
  then show ?thesis by simp
qed

lemma placeTrianglesJS_throws:
  "placeTrianglesJS lo s n cs binCounts = Inl TypeError
   \<longleftrightarrow> (\<exists>c \<in> set cs. binSlot (binIndexJS c lo s n) = None)"
  by (induction cs arbitrary: binCounts) (auto split: option.splits)

lemma sahPlacementJS_Num:
  assumes "rs \<noteq> []" and "centroidRangeJS (map Num rs) = (Num lo, Num hi)"
    and "\<forall>r \<in> set rs. lo \<le> r \<and> r \<le> hi"
  shows "(sahPlacementJS (map Num rs) = Inl TypeError) = (overflowBound \<le> hi - lo)"
proof -
  from assms(1,3) have le: "lo \<le> hi"
    by (cases rs) (auto intro: order_trans)
  let ?n = "getOptimalBinCount (length rs)"
  have n: "1 \<le> ?n" "?n \<le> maxBins"
    using binCount_bounds by simp_all
  show ?thesis
  proof (cases "overflowBound \<le> hi - lo")
    case True
    then have d: "toDouble (hi - lo) = PosInf"
      by (simp add: toDouble_def)
    have "hi \<in> set rs"
      using centroidRangeJS_Num [OF assms(1)] assms(2) by auto
    moreover have "binSlot (binIndexJS (Num hi) (Num lo) (Num 0) ?n) = None"
      by (simp add: binIndexJS_def jsSub_def d binSlot_def)
    ultimately have "placeTrianglesJS (Num lo) (Num 0) ?n (map Num rs) (replicate ?n 0) = Inl TypeError"
      unfolding placeTrianglesJS_throws by auto
    with True show ?thesis
      by (simp add: sahPlacementJS_def assms(2) jsSub_def d Let_def)
  next
    case False
    with le have d: "toDouble (hi - lo) = Num (hi - lo)"
      by (intro toDouble_nonneg) simp_all
    show ?thesis
    proof (cases "hi - lo < 1 / 10 ^ 6")
      case True
      with False show ?thesis
        by (simp add: sahPlacementJS_def assms(2) jsSub_def d)
    next
      case ge: False
      then have pos: "lo < hi" and ge': "1 / 10 ^ 6 \<le> hi - lo"
        by simp_all
      have "of_nat ?n \<le> (64 :: rat)"
        using n by (simp add: maxBins_def)
      then have "of_nat ?n / (hi - lo) \<le> 64 / (1 / 10 ^ 6)"
        using ge' by (intro frac_le) simp_all
      moreover have "0 \<le> of_nat ?n / (hi - lo)"
        using pos by simp
      ultimately have sd: "toDouble (of_nat ?n / (hi - lo)) = Num (of_nat ?n / (hi - lo))"
        using overflowBound_scale by (intro toDouble_nonneg) linarith+
      have "\<forall>c \<in> set (map Num rs).
              binSlot (binIndexJS c (Num lo) (Num (of_nat ?n / (hi - lo))) ?n) \<noteq> None"
        using binSlot_ok [OF _ _ pos n] assms(3) False by fastforce
      then have "placeTrianglesJS (Num lo) (Num (of_nat ?n / (hi - lo))) ?n (map Num rs)
                   (replicate ?n 0) \<noteq> Inl TypeError"
        unfolding placeTrianglesJS_throws by blast
      then obtain bc where "placeTrianglesJS (Num lo) (Num (of_nat ?n / (hi - lo))) ?n (map Num rs)
                   (replicate ?n 0) = Inr bc"
        using not_thrown by blast
      with False ge pos show ?thesis
        by (simp add: sahPlacementJS_def assms(2) jsSub_def d sd Let_def split: sum.splits)
    qed
  qed
qed

lemma mathMin_cases:
  "a \<noteq> NaN \<Longrightarrow> c \<noteq> NaN \<Longrightarrow>
   mathMin a c \<noteq> NaN \<and> (mathMin a c = a \<or> mathMin a c = c)
   \<and> (a = NegInf \<or> c = NegInf \<longrightarrow> mathMin a c = NegInf)"
  by (cases a; cases c; simp add: min_def)

lemma mathMax_cases:
  "a \<noteq> NaN \<Longrightarrow> c \<noteq> NaN \<Longrightarrow>
   mathMax a c \<noteq> NaN \<and> (mathMax a c = a \<or> mathMax a c = c)
   \<and> (a = PosInf \<or> c = PosInf \<longrightarrow> mathMax a c = PosInf)"
  by (cases a; cases c; simp add: max_def)

lemma mathMin_NaN [simp]: "mathMin a NaN = NaN"
  by (cases a) simp_all

lemma mathMax_NaN [simp]: "mathMax a NaN = NaN"
  by (cases a) simp_all

lemma jsMul_NaN [simp]: "jsMul a NaN = NaN"
  by (cases a) simp_all

lemma rangeJS_fold_NaN:
  "NaN \<in> set cs \<or> (a = NaN \<and> b = NaN) \<Longrightarrow>
   fold (\<lambda>c (minCentroid, maxCentroid). (mathMin minCentroid c, mathMax maxCentroid c)) cs (a, b)
   = (NaN, NaN)"
  by (induction cs arbitrary: a b) auto

lemma rangeJS_fold_mem:
  assumes "NaN \<notin> set cs" "a \<noteq> NaN" "b \<noteq> NaN"
  shows "fst (fold (\<lambda>c (minCentroid, maxCentroid). (mathMin minCentroid c, mathMax maxCentroid c))
               cs (a, b)) \<in> insert a (set cs)
       \<and> snd (fold (\<lambda>c (minCentroid, maxCentroid). (mathMin minCentroid c, mathMax maxCentroid c))
               cs (a, b)) \<in> insert b (set cs)
       \<and> (NegInf \<in> insert a (set cs) \<longrightarrow>
            fst (fold (\<lambda>c (minCentroid, maxCentroid). (mathMin minCentroid c, mathMax maxCentroid c))
               cs (a, b)) = NegInf)
       \<and> (PosInf \<in> insert b (set cs) \<longrightarrow>
            snd (fold (\<lambda>c (minCentroid, maxCentroid). (mathMin minCentroid c, mathMax maxCentroid c))
               cs (a, b)) = PosInf)"
  using assms
proof (induction cs arbitrary: a b)
  case Nil
  then show ?case by simp
next
  case (Cons c cs)
  then have c: "c \<noteq> NaN" "NaN \<notin> set cs"
    by auto
  note mn = mathMin_cases [OF Cons.prems(2) c(1)]
  note mx = mathMax_cases [OF Cons.prems(3) c(1)]
  from mn mx have n: "mathMin a c \<noteq> NaN" "mathMax b c \<noteq> NaN"
    by simp_all
  define p where
    "p = fold (\<lambda>c (minCentroid, maxCentroid). (mathMin minCentroid c, mathMax maxCentroid c))
           cs (mathMin a c, mathMax b c)"
  have step: "fold (\<lambda>c (minCentroid, maxCentroid). (mathMin minCentroid c, mathMax maxCentroid c))
           (c # cs) (a, b) = p"
    by (simp add: p_def)
  from Cons.IH [OF c(2) n] have
    "fst p \<in> insert (mathMin a c) (set cs)" "snd p \<in> insert (mathMax b c) (set cs)"
    "NegInf \<in> insert (mathMin a c) (set cs) \<longrightarrow> fst p = NegInf"
    "PosInf \<in> insert (mathMax b c) (set cs) \<longrightarrow> snd p = PosInf"
    unfolding p_def by blast+
  with mn mx show ?case
    unfolding step by (simp only: set_simps insert_iff) (elim conjE disjE; simp)
qed

lemma centroidRangeJS_mem:
  assumes "NaN \<notin> set cs" "cs \<noteq> []"
  shows "fst (centroidRangeJS cs) \<in> set cs \<and> snd (centroidRangeJS cs) \<in> set cs
       \<and> (NegInf \<in> set cs \<longrightarrow> fst (centroidRangeJS cs) = NegInf)
       \<and> (PosInf \<in> set cs \<longrightarrow> snd (centroidRangeJS cs) = PosInf)"
proof -
  from assms obtain c cs' where cs: "cs = c # cs'" "c \<noteq> NaN" "NaN \<notin> set cs'"
    by (cases cs) auto
  have "mathMin PosInf c = c" "mathMax NegInf c = c"
    using cs(2) by (cases c; simp)+
  then have "centroidRangeJS cs
     = fold (\<lambda>c (minCentroid, maxCentroid). (mathMin minCentroid c, mathMax maxCentroid c)) cs' (c, c)"
    by (simp add: centroidRangeJS_def cs(1))
  with rangeJS_fold_mem [OF cs(3) cs(2) cs(2)] show ?thesis
    by (simp add: cs(1))
qed

lemma sahPlacementJS_throws_if:
  assumes "\<not> jsLess (jsSub (snd (centroidRangeJS cs)) (fst (centroidRangeJS cs))) (Num (1 / 10 ^ 6))"
    and "c \<in> set cs"
    and "jsMul (jsSub c (fst (centroidRangeJS cs)))
           (jsDiv (Num (of_nat (getOptimalBinCount (length cs))))
              (jsSub (snd (centroidRangeJS cs)) (fst (centroidRangeJS cs)))) = NaN"
  shows "sahPlacementJS cs = Inl TypeError"
proof -
  let ?n = "getOptimalBinCount (length cs)"
  let ?s = "jsDiv (Num (of_nat ?n)) (jsSub (snd (centroidRangeJS cs)) (fst (centroidRangeJS cs)))"
  have "binSlot (binIndexJS c (fst (centroidRangeJS cs)) ?s ?n) = None"
    by (simp add: binIndexJS_def assms(3) binSlot_def)
  with assms(2) have "placeTrianglesJS (fst (centroidRangeJS cs)) ?s ?n cs (replicate ?n 0)
        = Inl TypeError"
    unfolding placeTrianglesJS_throws by blast
  with assms(1) show ?thesis
    by (simp add: sahPlacementJS_def Let_def)
qed

lemma nonNum_throws:
  assumes "c \<in> set cs" and "\<forall>r. c \<noteq> Num r"
  shows "sahPlacementJS cs = Inl TypeError"
proof (cases "NaN \<in> set cs")
  case True
  then have "centroidRangeJS cs = (NaN, NaN)"
    by (simp add: centroidRangeJS_def rangeJS_fold_NaN)
  then show ?thesis
    using assms(1) by (intro sahPlacementJS_throws_if [of cs c]) (simp_all add: jsSub_def)
next
  case False
  from assms(1) have ne: "cs \<noteq> []"
    by auto
  note m = centroidRangeJS_mem [OF False ne]
  let ?lo = "fst (centroidRangeJS cs)"
  let ?hi = "snd (centroidRangeJS cs)"
  from m False have nn: "?lo \<noteq> NaN" "?hi \<noteq> NaN"
    by metis+
  show ?thesis
  proof (cases "PosInf \<in> set cs")
    case True
    with m have hi: "?hi = PosInf"
      by simp
    from nn(1) show ?thesis
      by (intro sahPlacementJS_throws_if [of cs PosInf] True; cases ?lo)
         (simp_all add: hi jsSub_def)
  next
    case noPos: False
    have "c \<noteq> PosInf" "c \<noteq> NaN"
      using assms(1) noPos False by blast+
    with assms(2) have "c = NegInf"
      by (cases c) simp_all
    with assms(1) have neg: "NegInf \<in> set cs"
      by simp
    with m have lo: "?lo = NegInf"
      by simp
    from m noPos have "?hi \<noteq> PosInf"
      by metis
    with nn(2) show ?thesis
      by (intro sahPlacementJS_throws_if [of cs NegInf] neg; cases ?hi)
         (simp_all add: lo jsSub_def)
  qed
qed

text \<open>
  A placement that does not throw on a list does not throw on a part of it: the range
  of the part lies within the range of the list.
\<close>

lemma sahPlacementJS_subset:
  assumes "sahPlacementJS cs \<noteq> Inl TypeError" and "set cs' \<subseteq> set cs"
  shows "sahPlacementJS cs' \<noteq> Inl TypeError"
proof (cases "cs' = []")
  case True
  then show ?thesis
    by (simp add: sahPlacementJS_def centroidRangeJS_def jsSub_def)
next
  case False
  have num: "\<forall>c \<in> set cs. \<exists>r. c = Num r"
    using assms(1) nonNum_throws by blast
  then obtain f where f: "\<forall>c \<in> set cs. c = Num (f c)"
    by metis
  define rs where "rs = map f cs"
  define rs' where "rs' = map f cs'"
  have e: "cs = map Num rs" "cs' = map Num rs'"
    using f assms(2) by (auto simp: rs_def rs'_def map_idI subset_iff)
  have sub: "set rs' \<subseteq> set rs"
    using assms(2) by (auto simp: rs_def rs'_def)
  from False have ne: "rs' \<noteq> []" "rs \<noteq> []"
    using e sub by auto
  from centroidRangeJS_Num [OF ne(2)] obtain lo hi where
    r: "centroidRangeJS (map Num rs) = (Num lo, Num hi)"
    and b: "\<forall>r \<in> set rs. lo \<le> r \<and> r \<le> hi"
    by blast
  from centroidRangeJS_Num [OF ne(1)] obtain lo' hi' where
    r': "centroidRangeJS (map Num rs') = (Num lo', Num hi')"
    and m': "lo' \<in> set rs'" "hi' \<in> set rs'"
    and b': "\<forall>r \<in> set rs'. lo' \<le> r \<and> r \<le> hi'"
    by blast
  from sahPlacementJS_Num [OF ne(2) r b] assms(1) have "hi - lo < overflowBound"
    by (simp add: e)
  moreover from m' sub b have "lo \<le> lo'" "hi' \<le> hi"
    by auto
  ultimately have "\<not> overflowBound \<le> hi' - lo'"
    by linarith
  with sahPlacementJS_Num [OF ne(1) r' b'] show ?thesis
    by (simp add: e)
qed

lemma placementThrows_subset:
  assumes "placementThrows triangles'" and "set triangles' \<subseteq> set triangles"
  shows "placementThrows triangles"
proof -
  from assms(1) obtain axis where
    t: "sahPlacementJS (map (\<lambda>tri. centroidJS tri axis) triangles') = Inl TypeError"
    by (auto simp: placementThrows_def list_ex_iff)
  have "set (map (\<lambda>tri. centroidJS tri axis) triangles')
        \<subseteq> set (map (\<lambda>tri. centroidJS tri axis) triangles)"
    using assms(2) by auto
  with t have "sahPlacementJS (map (\<lambda>tri. centroidJS tri axis) triangles) = Inl TypeError"
    using sahPlacementJS_subset by blast
  then show ?thesis
    by (cases axis) (auto simp: placementThrows_def axes_def)
qed

lemma placementThrows_inRange:
  assumes "list_all inRange triangles"
  shows "\<not> placementThrows triangles"
proof -
  have "sahPlacementJS (map (\<lambda>tri. centroidJS tri axis) triangles) \<noteq> Inl TypeError" for axis
  proof (cases "triangles = []")
    case True
    then show ?thesis
      by (simp add: sahPlacementJS_def centroidRangeJS_def jsSub_def)
  next
    case False
    have "\<forall>tri \<in> set triangles. \<exists>r. centroidJS tri axis = Num r \<and> \<bar>r\<bar> \<le> coordinateBound"
      using assms centroidJS_inRange by (simp add: list_all_iff)
    then obtain f where
      f: "\<forall>tri \<in> set triangles. centroidJS tri axis = Num (f tri) \<and> \<bar>f tri\<bar> \<le> coordinateBound"
      by metis
    define rs where "rs = map f triangles"
    have e: "map (\<lambda>tri. centroidJS tri axis) triangles = map Num rs"
      using f by (simp add: rs_def)
    have bd: "\<forall>r \<in> set rs. \<bar>r\<bar> \<le> coordinateBound"
      using f by (simp add: rs_def)
    have ne: "rs \<noteq> []"
      using False by (simp add: rs_def)
    from centroidRangeJS_Num [OF ne] obtain lo hi where
      r: "centroidRangeJS (map Num rs) = (Num lo, Num hi)"
      and m: "lo \<in> set rs" "hi \<in> set rs"
      and b: "\<forall>r \<in> set rs. lo \<le> r \<and> r \<le> hi"
      by blast
    from m bd have "\<bar>lo\<bar> \<le> coordinateBound" "\<bar>hi\<bar> \<le> coordinateBound"
      by simp_all
    with coordinateBound_small have "\<not> overflowBound \<le> hi - lo"
      by linarith
    with sahPlacementJS_Num [OF ne r b] show ?thesis
      by (simp add: e)
  qed
  then show ?thesis
    by (simp add: placementThrows_def list_ex_iff)
qed


section \<open>The build in the range of doubles\<close>

text \<open>
  \<open>buildSync\<close> with the exception it can raise. The only statement of the build that
  can throw is the placement of a triangle in its bin, in the split search of a call of
  \<open>buildNodeRecursive\<close>: the presort computes with the centroids without indexing by
  them, the two median searches compare and sort, and the rest pushes and counts. The root
  call is the first to search for a split, when it holds more than \<open>maxLeafSize\<close>
  triangles and the depth budget is positive. A later call works on one side of a
  partition, a part of the list of the root call, so when the placement at the root does
  not throw, no later one does (\<open>placementThrows_subset\<close>). When the placement throws at
  the root, the builder has counted the root node and the split attempt, and
  \<open>reorderedTriangles\<close> is as it was. When it does not, \<open>buildSync\<close> returns, and
  what it returns is read on exact numbers as above.
\<close>

definition buildSyncJS ::
    "BVHBuilder \<Rightarrow> Triangle list \<Rightarrow> int \<Rightarrow> Triangle list
      \<Rightarrow> (JsError + CWBVHNode) \<times> Triangle list \<times> BVHBuilder" where
  "buildSyncJS this triangles depth reorderedTriangles =
     (let this0 = resetState this triangles;
          triangleInfos = presort this0 (toTriangleInfos triangles);
          this1 = entered this0
      in if length triangleInfos > maxLeafSize this1 \<and> depth > 0
            \<and> placementThrows (map triangle triangleInfos)
         then (Inl TypeError, reorderedTriangles,
               this1\<lparr> splitStats := trackSplitAttempt (getOptimalBinCount (length triangleInfos))
                                       (splitStats this1) \<rparr>)
         else (case buildSync this triangles depth reorderedTriangles of
                 (bvhRoot, reordered, this2) \<Rightarrow> (Inr bvhRoot, reordered, this2)))"

lemma buildSyncJS_inRange:
  assumes "list_all inRange triangles"
  shows "buildSyncJS this triangles depth out
         = (Inr (fst (buildSync this triangles depth out)),
            fst (snd (buildSync this triangles depth out)),
            snd (snd (buildSync this triangles depth out)))"
proof -
  let ?tis = "presort (resetState this triangles) (toTriangleInfos triangles)"
  have "mset (map triangle ?tis) = mset triangles"
    by (simp only: presort_triangles triangle_toTriangleInfos)
  then have "set (map triangle ?tis) = set triangles"
    by (rule mset_eq_setD)
  with assms have "list_all inRange (map triangle ?tis)"
    unfolding list_all_iff by blast
  then have "\<not> placementThrows (map triangle ?tis)"
    by (rule placementThrows_inRange)
  then show ?thesis
    by (simp add: buildSyncJS_def Let_def case_prod_beta)
qed

lemma buildSyncJS_throws:
  assumes "placementThrows triangles" and "maxLeafSize this < length triangles" and "0 < depth"
  shows "fst (buildSyncJS this triangles depth out) = Inl TypeError"
proof -
  let ?tis = "presort (resetState this triangles) (toTriangleInfos triangles)"
  have "mset (map triangle ?tis) = mset triangles"
    by (simp only: presort_triangles triangle_toTriangleInfos)
  then have "set triangles \<subseteq> set (map triangle ?tis)"
    using mset_eq_setD by blast
  with assms(1) have "placementThrows (map triangle ?tis)"
    by (rule placementThrows_subset)
  moreover have "length ?tis = length triangles"
    by (rule buildSync_lengths)
  ultimately show ?thesis
    using assms(2,3) by (simp add: buildSyncJS_def Let_def entered_def resetState_def)
qed

section \<open>The promise of build\<close>

text \<open>
  \<open>build\<close> returns a promise and may write the caller's array. What the environment
  decides is an input of the model: whether \<open>Worker\<close> is defined, whether creating the
  worker or posting to it throws, and otherwise the events the worker sends back, since
  \<open>Workers/BVHWorker.js\<close> is not part of the sources at hand. A message carries the
  fields \<open>bvhRoot\<close>, \<open>triangles\<close>, \<open>error\<close> and \<open>progress\<close>, each possibly undefined.
\<close>

record WorkerMessage =
  msgBvhRoot :: "CWBVHNode option"
  msgTriangles :: "Triangle list option"
  msgError :: "string option"
  msgProgress :: "nat option"

datatype WorkerEvent = OnMessage WorkerMessage | OnError string

datatype Environment =
  WorkerUndefined
| WorkerCreationThrows
| WorkerRuns "WorkerEvent list"

text \<open>
  A promise is rejected with what the worker reported, or with the exception thrown
  inside its executor.
\<close>

datatype Reason = WorkerError string | Thrown JsError

datatype Promise = Pending | Resolved "CWBVHNode option" | Rejected Reason

text \<open>
  The two handlers, run on the events in turn until the promise settles. The state is
  the promise and the caller's array. A message with an error rejects; a progress message
  is forwarded when there is a callback; any other message is the completion: its
  triangles are copied over the caller's array and the promise resolves with its root.
  A completion without triangles makes the handler throw on \<open>newTriangles.length\<close>,
  which leaves the promise pending.
\<close>

fun workerEvents :: "bool \<Rightarrow> WorkerEvent list \<Rightarrow> Triangle list \<Rightarrow> Promise \<times> Triangle list" where
  "workerEvents hasCallback [] triangles = (Pending, triangles)"
| "workerEvents hasCallback (OnError e # rest) triangles = (Rejected (WorkerError e), triangles)"
| "workerEvents hasCallback (OnMessage m # rest) triangles =
     (case (case msgError m of Some e \<Rightarrow> if e \<noteq> [] then Some e else None | None \<Rightarrow> None) of
        Some e \<Rightarrow> (Rejected (WorkerError e), triangles)
      | None \<Rightarrow>
          if msgProgress m \<noteq> None \<and> hasCallback then workerEvents hasCallback rest triangles
          else (case msgTriangles m of
                  None \<Rightarrow> workerEvents hasCallback rest triangles
                | Some newTriangles \<Rightarrow> (Resolved (msgBvhRoot m), newTriangles)))"

text \<open>
  The result of \<open>build\<close> is the promise it returns, or the exception it throws. Where
  creating the worker throws, \<open>buildSync\<close> runs in the \<open>catch\<close> block of the executor:
  its root resolves the promise, and an exception it throws leaves the executor and
  rejects the promise. Without a worker \<open>build\<close> returns
  \<open>Promise.resolve(this.buildSync(...))\<close>, and an exception of \<open>buildSync\<close> is thrown
  by \<open>build\<close> itself. In both cases \<open>buildSync\<close> is given a fresh array.
\<close>

definition build ::
    "Environment \<Rightarrow> BVHBuilder \<Rightarrow> Triangle list \<Rightarrow> int \<Rightarrow> bool
      \<Rightarrow> (JsError + Promise) \<times> Triangle list \<times> BVHBuilder" where
  "build env this triangles depth hasCallback =
     (let this1 = this\<lparr> totalTriangles := length triangles \<rparr>
      in if useWorker this1 \<and> env \<noteq> WorkerUndefined then
           (case env of
              WorkerRuns events \<Rightarrow>
                (Inr (fst (workerEvents hasCallback events triangles)),
                 snd (workerEvents hasCallback events triangles), this1)
            | _ \<Rightarrow>
                (case buildSyncJS this1 triangles depth [] of
                   (Inr bvhRoot, reordered, this2) \<Rightarrow> (Inr (Resolved (Some bvhRoot)), triangles, this2)
                 | (Inl e, reordered, this2) \<Rightarrow> (Inr (Rejected (Thrown e)), triangles, this2)))
         else
           (case buildSyncJS this1 triangles depth [] of
              (Inr bvhRoot, reordered, this2) \<Rightarrow> (Inr (Resolved (Some bvhRoot)), triangles, this2)
            | (Inl e, reordered, this2) \<Rightarrow> (Inl e, triangles, this2)))"

lemma build_fallback_thrown:
  assumes "useWorker this"
    and "fst (buildSyncJS (this\<lparr> totalTriangles := length triangles \<rparr>) triangles depth []) = Inl e"
  shows "fst (build WorkerCreationThrows this triangles depth hasCallback) = Inr (Rejected (Thrown e))"
proof -
  obtain x reordered this2 where
    r: "buildSyncJS (this\<lparr> totalTriangles := length triangles \<rparr>) triangles depth []
        = (x, reordered, this2)"
    by (cases "buildSyncJS (this\<lparr> totalTriangles := length triangles \<rparr>) triangles depth []")
  with assms(2) have "x = Inl e"
    by simp
  with r assms(1) show ?thesis
    by (simp add: build_def Let_def)
qed

lemma build_sync_inRange:
  assumes "list_all inRange triangles" and "env = WorkerUndefined \<or> env = WorkerCreationThrows"
  shows "build env this triangles depth hasCallback
         = (Inr (Resolved (Some (fst (buildSync (this\<lparr> totalTriangles := length triangles \<rparr>)
                                        triangles depth [])))),
            triangles,
            snd (snd (buildSync (this\<lparr> totalTriangles := length triangles \<rparr>) triangles depth [])))"
  using assms(2)
  by (auto simp: build_def Let_def buildSyncJS_inRange [OF assms(1)] case_prod_beta)

section \<open>Example inputs\<close>

text \<open>A triangle with centroid \<open>(a, b, c)\<close> and a box of side 3 around it.\<close>

definition triangleAt :: "rat \<Rightarrow> rat \<Rightarrow> rat \<Rightarrow> Triangle" where
  "triangleAt a b c =
     \<lparr> posA = Vector3 (a - 1) (b - 1) (c - 1),
       posB = Vector3 (a + 2) (b - 1) (c - 1),
       posC = Vector3 (a - 1) (b + 2) (c + 2) \<rparr>"

text \<open>Nine copies of one triangle.\<close>

definition same9 :: "Triangle list" where
  "same9 = replicate 9 (triangleAt 0 0 0)"

lemma centroid_triangleAt [simp]:
  "centroid (newTriangleInfo (triangleAt a b c) i) = Vector3 a b c"
  by (simp add: newTriangleInfo_def triangleAt_def)

lemma set_toTriangleInfos:
  "t \<in> set (toTriangleInfos ts) \<Longrightarrow> \<exists>tri \<in> set ts. \<exists>i. t = newTriangleInfo tri i"
  by (auto simp: toTriangleInfos_def dest: set_zip_leftD)

lemma length_toTriangleInfos [simp]: "length (toTriangleInfos ts) = length ts"
  by (simp add: toTriangleInfos_def)

lemma presort_small:
  "length ts < mortonClusterThreshold this \<Longrightarrow> length ts \<le> 50000 \<Longrightarrow>
   presort (resetState this ts) (toTriangleInfos ts) = toTriangleInfos ts"
  by (simp add: presort_def sortTrianglesByMortonCode_def resetState_def)

lemma root_in_allNodes: "n \<in> set (allNodes n)"
  by (cases n) simp

lemma same9_leaf:
  "becomesLeaf (resetState newBVHBuilder same9) (toTriangleInfos same9) 30"
proof -
  have ne: "toTriangleInfos same9 \<noteq> []"
    by (simp add: toTriangleInfos_def same9_def)
  have "\<forall>t \<in> set (toTriangleInfos same9). centroid t = Vector3 0 0 0"
    by (auto simp: same9_def dest!: set_toTriangleInfos)
  from same_centroid_no_split [OF ne this]
  show ?thesis
    by (simp add: becomesLeaf_def splitInfoOf_def)
qed

lemma same9_presort:
  "presort (resetState newBVHBuilder same9) (toTriangleInfos same9) = toTriangleInfos same9"
  by (rule presort_small) (simp_all add: same9_def newBVHBuilder_def)

lemma same9_origins:
  "leafOrigins newBVHBuilder same9 30
   = [(fst (emitLeaf (nodeOf (toTriangleInfos same9)) (toTriangleInfos same9) []),
       toTriangleInfos same9, 30)]"
  using same9_leaf
  by (simp add: leafOrigins_def buildSync_def same9_presort build_leaf leaves_def
      allNodes_emitLeaf isLeaf_def emitLeaf_fields
      leafCalls.simps [of "resetState newBVHBuilder same9" "toTriangleInfos same9" 30])

text \<open>
  Ten triangles: nine with centroids in the cube \<open>[0, 8]\<^sup>3\<close>, pairwise distinct on every
  axis, and one far away, first in the array.
\<close>

definition far :: Triangle where
  "far = triangleAt 128 128 128"

definition cluster9 :: "Triangle list" where
  "cluster9 = [triangleAt 0 3 5, triangleAt 1 7 2, triangleAt 2 0 6,
          triangleAt 3 5 0, triangleAt 4 8 4, triangleAt 5 2 8, triangleAt 6 6 1,
          triangleAt 7 1 7, triangleAt 8 4 3]"

definition t10 :: "Triangle list" where
  "t10 = far # cluster9"

text \<open>
  The search on the ten triangles, evaluated: every SAH candidate separates the far
  triangle from the other nine, and the first one, on axis 0 at position 16, is kept.
\<close>

lemma t10_split:
  "splitInfoOf newBVHBuilder (toTriangleInfos t10) = SplitFound Axis0 16 ''SAH''"
  by code_simp

lemma t10_partition:
  "partitionTrianglesOptimized (toTriangleInfos t10) Axis0 16
   = (tl (toTriangleInfos t10), [hd (toTriangleInfos t10)])"
  by code_simp

lemma t10_hd: "triangle (hd (toTriangleInfos t10)) = far"
  by (simp add: toTriangleInfos_def t10_def upt_rec [of 0] newTriangleInfo_def)

lemma t10_lengths [simp]:
  "length t10 = 10" "length (tl (toTriangleInfos t10)) = 9"
  by (simp_all add: t10_def cluster9_def)




lemma defaultConfig:
  assumes "sameConfig this newBVHBuilder"
  shows "maxLeafSize this = 8" "enableObjectMedianFallback this"
  using assms by (simp_all add: sameConfig_def newBVHBuilder_def)

text \<open>The root call splits the nine from the far one; the call on the nine splits again.\<close>

lemma t10_root:
  assumes "sameConfig this newBVHBuilder"
  shows "\<not> becomesLeaf this (toTriangleInfos t10) 30"
    and "leftOf this (toTriangleInfos t10) = tl (toTriangleInfos t10)"
    and "rightOf this (toTriangleInfos t10) = [hd (toTriangleInfos t10)]"
proof -
  have sp: "splitInfoOf this (toTriangleInfos t10) = SplitFound Axis0 16 ''SAH''"
    using splitInfoOf_cong [OF assms] t10_split by simp
  show l: "leftOf this (toTriangleInfos t10) = tl (toTriangleInfos t10)"
    by (simp add: leftOf_def sp t10_partition)
  show r: "rightOf this (toTriangleInfos t10) = [hd (toTriangleInfos t10)]"
    by (simp add: rightOf_def sp t10_partition)
  have "tl (toTriangleInfos t10) \<noteq> []"
    using t10_lengths(2) by (metis length_0_conv zero_neq_numeral)
  then show "\<not> becomesLeaf this (toTriangleInfos t10) 30"
    by (simp add: becomesLeaf_def sp l r defaultConfig [OF assms])
qed




lemma t10_presort:
  assumes "mortonClusterThreshold this = 128"
  shows "presort (resetState this t10) (toTriangleInfos t10) = toTriangleInfos t10"
  by (rule presort_small) (simp_all add: assms)

lemma sameConfig_resetState: "sameConfig (resetState this ts) this"
  by (simp add: sameConfig_def resetState_def)

text \<open>The far triangle, first in the input, is the last entry of the reordered array.\<close>

lemma t10_reordered_last:
  assumes "sameConfig this newBVHBuilder"
  shows "fst (snd (buildNodeRecursive this (toTriangleInfos t10) 30 [])) ! 9 = far"
proof -
  let ?l = "buildNodeRecursive (thisAfterSplit this (toTriangleInfos t10))
              (tl (toTriangleInfos t10)) 29 []"
  have c: "sameConfig (snd (snd ?l)) newBVHBuilder"
    using build_config sameConfig_afterSplit assms sameConfig_trans by blast
  have "becomesLeaf (snd (snd ?l)) [hd (toTriangleInfos t10)] 29"
    by (simp add: becomesLeaf_def defaultConfig [OF c])
  then have "fst (snd (buildNodeRecursive (snd (snd ?l)) [hd (toTriangleInfos t10)] 29 (fst (snd ?l))))
             = fst (snd ?l) @ [far]"
    by (simp add: build_leaf t10_hd)
  then have "fst (snd (buildNodeRecursive this (toTriangleInfos t10) 30 [])) = fst (snd ?l) @ [far]"
    using t10_root [OF assms] by (simp add: build_split_out)
  moreover have "length (fst (snd ?l)) = 9"
    by (simp add: build_out_length)
  ultimately show ?thesis
    by (simp add: nth_append)
qed

text \<open>
  Nine copies of a triangle with finite coordinates whose \<open>x\<close> coordinates are all
  \<open>1e308\<close>: their sum is beyond the largest double.
\<close>

definition bigTriangle :: Triangle where
  "bigTriangle =
     \<lparr> posA = Vector3 (10 ^ 308) 0 0, posB = Vector3 (10 ^ 308) 1 0, posC = Vector3 (10 ^ 308) 0 1 \<rparr>"

definition big9 :: "Triangle list" where
  "big9 = replicate 9 bigTriangle"

lemma bigTriangle_centroid: "centroidJS bigTriangle Axis0 = PosInf"
  by (simp add: centroidJS_def centroidComponentJS_def bigTriangle_def toDouble_def
      overflowBound_def)

lemma big9_throws: "placementThrows big9"
proof -
  have "sahPlacementJS (map (\<lambda>tri. centroidJS tri Axis0) big9) = Inl TypeError"
    by (rule nonNum_throws [of PosInf]) (simp_all add: big9_def bigTriangle_centroid)
  then show ?thesis
    by (simp add: placementThrows_def axes_def)
qed

lemma t10_inRange: "list_all inRange t10"
  by (simp add: t10_def cluster9_def far_def triangleAt_def inRange_def axes_def
      coordinateBound_def)

section \<open>Claims\<close>

text \<open>
  C10. \<open>partitionTrianglesOptimized\<close> is a stable two-way partition: for every list,
  axis and split position, the left list is the subsequence of the elements whose centroid
  component on the axis is at most the split position, the right list is the subsequence
  of those above it, in the order of the input, and every element is on exactly one side.
\<close>

theorem C10_partition_stable:
  "fst (partitionTrianglesOptimized tis axis p)
     = filter (\<lambda>t. getComponent (centroid t) axis \<le> p) tis
   \<and> snd (partitionTrianglesOptimized tis axis p)
     = filter (\<lambda>t. getComponent (centroid t) axis > p) tis
   \<and> mset (fst (partitionTrianglesOptimized tis axis p))
     + mset (snd (partitionTrianglesOptimized tis axis p)) = mset tis
   \<and> set (fst (partitionTrianglesOptimized tis axis p))
     \<inter> set (snd (partitionTrianglesOptimized tis axis p)) = {}"
proof -
  have gt: "(\<lambda>t. \<not> getComponent (centroid t) axis \<le> p) = (\<lambda>t. getComponent (centroid t) axis > p)"
    by (simp add: fun_eq_iff not_le)
  show ?thesis
    unfolding partition_filter fst_conv snd_conv
    by (auto simp: gt [symmetric])
qed

text \<open>
  C2. In the tree returned by \<open>buildSync\<close> for a non-empty array of \<open>N\<close> triangles,
  started on an empty output array, the ranges \<open>[triangleOffset, triangleOffset +
  triangleCount)\<close> of the leaves, taken from left to right, follow one another from 0 to
  \<open>N\<close>: no gap, no overlap, every index covered once. No range is empty, the reordered
  array has \<open>N\<close> entries and holds the input triangles, each as often as the input does.
\<close>

theorem C2_leaf_ranges_partition:
  assumes "triangles \<noteq> []"
  shows "concat (map leafRange (leaves (fst (buildSync this triangles depth []))))
           = [0 ..< length triangles]
       \<and> list_all (\<lambda>n. 0 < triangleCount n) (leaves (fst (buildSync this triangles depth [])))
       \<and> length (fst (snd (buildSync this triangles depth []))) = length triangles
       \<and> mset (fst (snd (buildSync this triangles depth []))) = mset triangles"
proof -
  let ?B = "resetState this triangles"
  let ?tis = "presort ?B (toTriangleInfos triangles)"
  have ne: "?tis \<noteq> []"
    using assms buildSync_lengths [of this triangles] by auto
  have r: "concat (map leafRange (leaves (fst (buildSync this triangles depth []))))
           = [0 ..< length triangles]"
    using build_leaf_ranges [of ?B ?tis depth "[]"]
    by (simp add: buildSync_def buildSync_lengths)
  have "list_all nodeOk (allNodes (fst (buildSync this triangles depth [])))"
    unfolding buildSync_def by (rule build_nodes_ok [OF ne])
  then have c: "list_all (\<lambda>n. 0 < triangleCount n) (leaves (fst (buildSync this triangles depth [])))"
    by (auto simp: leaves_def list_all_iff nodeOk_def isLeaf_def)
  have l: "length (fst (snd (buildSync this triangles depth []))) = length triangles"
    by (simp add: buildSync_def build_out_length buildSync_lengths)
  have "mset (fst (snd (buildSync this triangles depth [])))
        = mset (map triangle (toTriangleInfos triangles))"
    by (simp only: buildSync_def build_out_mset presort_triangles) simp
  then have m: "mset (fst (snd (buildSync this triangles depth []))) = mset triangles"
    by (simp only: triangle_toTriangleInfos)
  from r c l m show ?thesis by simp
qed

text \<open>
  C3. In the tree returned by \<open>buildSync\<close>, for every input, every node that has both
  children has as its \<open>boundsMin\<close> the component-wise minimum and as its \<open>boundsMax\<close> the
  component-wise maximum of the corners of its two children.
\<close>

theorem C3_internal_bounds_union:
  assumes "n \<in> set (allNodes (fst (buildSync this triangles depth out)))"
    and "leftChild n = Some l" and "rightChild n = Some r"
  shows "boundsMin n = vmin (boundsMin l) (boundsMin r)
       \<and> boundsMax n = vmax (boundsMax l) (boundsMax r)"
proof -
  have "list_all boundsAreUnion (allNodes (fst (buildSync this triangles depth out)))"
    unfolding buildSync_def by (rule build_bounds_union)
  with assms(1) have "boundsAreUnion n"
    by (simp add: list_all_iff)
  with assms(2,3) show ?thesis
    by (simp add: boundsAreUnion_def)
qed

text \<open>
  C4, as amended. For every build of a non-empty triangle array, every node of the returned
  tree has either both children, or no child and a positive \<open>triangleCount\<close>. (For the
  empty array the root is a leaf with \<open>triangleCount = 0\<close>.)
\<close>

theorem C4_node_shape_nonempty:
  assumes "triangles \<noteq> []"
    and "n \<in> set (allNodes (fst (buildSync this triangles depth out)))"
  shows "(leftChild n \<noteq> None \<and> rightChild n \<noteq> None)
       \<or> (leftChild n = None \<and> rightChild n = None \<and> 0 < triangleCount n)"
proof -
  have "presort (resetState this triangles) (toTriangleInfos triangles) \<noteq> []"
    using assms(1) buildSync_lengths [of this triangles] by auto
  then have "list_all nodeOk (allNodes (fst (buildSync this triangles depth out)))"
    unfolding buildSync_def by (rule build_nodes_ok)
  with assms(2) show ?thesis
    by (simp add: list_all_iff nodeOk_def)
qed

text \<open>
  C5, as amended. With a depth budget that is not negative, the leaves of the tree returned
  by \<open>buildSync\<close> correspond one to one, in order, to the calls that emitted them, and
  every leaf satisfies \<open>triangleCount \<le> maxLeafSize\<close>, or was emitted at remaining depth
  0, or was emitted because the split search failed on its triangles or the split it
  found left one side empty.
\<close>

theorem C5_leaf_reasons:
  assumes "0 \<le> depth"
  shows "length (leaves (fst (buildSync this triangles depth [])))
           = length (leafCalls (resetState this triangles)
               (presort (resetState this triangles) (toTriangleInfos triangles)) depth)
       \<and> list_all (\<lambda>(leaf, t, d).
             triangleCount leaf = length t
             \<and> (triangleCount leaf \<le> maxLeafSize this \<or> d = 0
                \<or> \<not> success (splitInfoOf (resetState this triangles) t)
                \<or> leftOf (resetState this triangles) t = []
                \<or> rightOf (resetState this triangles) t = []))
           (leafOrigins this triangles depth)"
proof -
  let ?B = "resetState this triangles"
  let ?L = "leaves (fst (buildSync this triangles depth []))"
  let ?C = "leafCalls ?B (presort ?B (toTriangleInfos triangles)) depth"
  have m: "list_all2 (\<lambda>leaf (t, d). triangleCount leaf = length t) ?L ?C"
    by (rule leaves_match_calls)
  then have len: "length ?L = length ?C"
    by (rule list_all2_lengthD)
  have w: "list_all (\<lambda>(t, d). becomesLeaf ?B t d) ?C"
    by (rule leafCalls_why)
  have d: "list_all (\<lambda>(t, d). 0 \<le> d) ?C"
    using assms by (rule leafCalls_depth)
  have mls: "maxLeafSize ?B = maxLeafSize this"
    by (simp add: resetState_def)
  have "\<And>leaf t d. (leaf, t, d) \<in> set (zip ?L ?C) \<Longrightarrow>
          triangleCount leaf = length t
          \<and> (triangleCount leaf \<le> maxLeafSize this \<or> d = 0
             \<or> \<not> success (splitInfoOf ?B t) \<or> leftOf ?B t = [] \<or> rightOf ?B t = [])"
  proof -
    fix leaf t d
    assume z: "(leaf, t, d) \<in> set (zip ?L ?C)"
    then have c: "triangleCount leaf = length t"
      using m by (auto simp: list_all2_iff)
    from z have "(t, d) \<in> set ?C"
      by (rule set_zip_rightD)
    with w d have "becomesLeaf ?B t d" "0 \<le> d"
      by (auto simp: list_all_iff)
    with c mls show "triangleCount leaf = length t
          \<and> (triangleCount leaf \<le> maxLeafSize this \<or> d = 0
             \<or> \<not> success (splitInfoOf ?B t) \<or> leftOf ?B t = [] \<or> rightOf ?B t = [])"
      by (auto simp: becomesLeaf_def)
  qed
  then have "list_all (\<lambda>(leaf, t, d).
             triangleCount leaf = length t
             \<and> (triangleCount leaf \<le> maxLeafSize this \<or> d = 0
                \<or> \<not> success (splitInfoOf ?B t) \<or> leftOf ?B t = [] \<or> rightOf ?B t = []))
           (leafOrigins this triangles depth)"
    unfolding leafOrigins_def list_all_iff by blast
  with len show ?thesis by simp
qed

theorem C2_witness:
  "same9 \<noteq> []
   \<and> concat (map leafRange (leaves (fst (buildSync newBVHBuilder same9 30 [])))) = [0 ..< 9]
   \<and> length (fst (snd (buildSync newBVHBuilder same9 30 []))) = 9"
  using C2_leaf_ranges_partition [of same9 newBVHBuilder 30]
  by (simp add: same9_def)

text \<open>
  C4 as stated fails on the empty array: the root that \<open>buildSync\<close> returns has no child
  and \<open>triangleCount = 0\<close>.
\<close>

theorem C4_counterexample:
  "\<not> ((leftChild (fst (buildSync newBVHBuilder [] 30 [])) \<noteq> None
        \<and> rightChild (fst (buildSync newBVHBuilder [] 30 [])) \<noteq> None)
      \<or> (leftChild (fst (buildSync newBVHBuilder [] 30 [])) = None
        \<and> rightChild (fst (buildSync newBVHBuilder [] 30 [])) = None
        \<and> 0 < triangleCount (fst (buildSync newBVHBuilder [] 30 []))))"
proof -
  have "presort (resetState newBVHBuilder []) (toTriangleInfos []) = toTriangleInfos []"
    by (rule presort_small) (simp_all add: newBVHBuilder_def)
  then have p: "presort (resetState newBVHBuilder []) (toTriangleInfos []) = []"
    by (simp add: toTriangleInfos_def)
  have "becomesLeaf (resetState newBVHBuilder []) [] 30"
    by (simp add: becomesLeaf_def)
  then have "fst (buildSync newBVHBuilder [] 30 []) = fst (emitLeaf (nodeOf []) [] [])"
    by (simp add: buildSync_def p build_leaf)
  then show ?thesis
    by (simp add: emitLeaf_fields)
qed

theorem C4_witness:
  "same9 \<noteq> []
   \<and> fst (buildSync newBVHBuilder same9 30 [])
       \<in> set (allNodes (fst (buildSync newBVHBuilder same9 30 [])))
   \<and> ((leftChild (fst (buildSync newBVHBuilder same9 30 [])) \<noteq> None
        \<and> rightChild (fst (buildSync newBVHBuilder same9 30 [])) \<noteq> None)
      \<or> (leftChild (fst (buildSync newBVHBuilder same9 30 [])) = None
        \<and> rightChild (fst (buildSync newBVHBuilder same9 30 [])) = None
        \<and> 0 < triangleCount (fst (buildSync newBVHBuilder same9 30 []))))"
proof -
  have ne: "same9 \<noteq> []"
    by (simp add: same9_def)
  from C4_node_shape_nonempty [OF ne root_in_allNodes, of newBVHBuilder 30 "[]"] ne
  show ?thesis
    by (simp add: root_in_allNodes)
qed

text \<open>
  C5 as stated fails on nine copies of one triangle with depth budget 30: no tier can
  split them, so the root is a leaf with \<open>triangleCount = 9 > maxLeafSize\<close>, emitted at
  remaining depth 30.
\<close>

theorem C5_counterexample:
  "\<not> list_all (\<lambda>(leaf, t, d). triangleCount leaf \<le> maxLeafSize newBVHBuilder \<or> d = 0)
        (leafOrigins newBVHBuilder same9 30)"
  unfolding same9_origins
  by (simp add: emitLeaf_fields newBVHBuilder_def same9_def)

theorem C5_witness:
  "(0 :: int) \<le> 30
   \<and> length (leaves (fst (buildSync newBVHBuilder same9 30 [])))
       = length (leafCalls (resetState newBVHBuilder same9)
           (presort (resetState newBVHBuilder same9) (toTriangleInfos same9)) 30)
   \<and> list_all (\<lambda>(leaf, t, d).
         triangleCount leaf = length t
         \<and> (triangleCount leaf \<le> maxLeafSize newBVHBuilder \<or> d = 0
            \<or> \<not> success (splitInfoOf (resetState newBVHBuilder same9) t)
            \<or> leftOf (resetState newBVHBuilder same9) t = []
            \<or> rightOf (resetState newBVHBuilder same9) t = []))
       (leafOrigins newBVHBuilder same9 30)"
  using C5_leaf_reasons [of 30 newBVHBuilder same9]
  by simp




text \<open>
  C3, at the root of the tree for \<open>t10\<close>, which has both children.
\<close>

theorem C3_witness:
  "fst (buildSync newBVHBuilder t10 30 [])
     \<in> set (allNodes (fst (buildSync newBVHBuilder t10 30 [])))
   \<and> leftChild (fst (buildSync newBVHBuilder t10 30 [])) \<noteq> None
   \<and> rightChild (fst (buildSync newBVHBuilder t10 30 [])) \<noteq> None
   \<and> boundsMin (fst (buildSync newBVHBuilder t10 30 []))
       = vmin (boundsMin (the (leftChild (fst (buildSync newBVHBuilder t10 30 [])))))
              (boundsMin (the (rightChild (fst (buildSync newBVHBuilder t10 30 [])))))
   \<and> boundsMax (fst (buildSync newBVHBuilder t10 30 []))
       = vmax (boundsMax (the (leftChild (fst (buildSync newBVHBuilder t10 30 [])))))
              (boundsMax (the (rightChild (fst (buildSync newBVHBuilder t10 30 [])))))"
proof -
  let ?B = "resetState newBVHBuilder t10"
  let ?n = "fst (buildSync newBVHBuilder t10 30 [])"
  have p: "presort ?B (toTriangleInfos t10) = toTriangleInfos t10"
    by (rule t10_presort) (simp add: newBVHBuilder_def)
  have "\<not> becomesLeaf ?B (toTriangleInfos t10) 30"
    by (rule t10_root) (rule sameConfig_resetState)
  then have "\<exists>l r. ?n = setChildren (nodeOf (toTriangleInfos t10)) l r"
    unfolding buildSync_def p by (metis build_split_node)
  then obtain l r where c: "leftChild ?n = Some l" "rightChild ?n = Some r"
    by (auto simp: setChildren_fields)
  from C3_internal_bounds_union [OF root_in_allNodes c] c show ?thesis
    by (simp add: root_in_allNodes)
qed

text \<open>
  C1 fails on \<open>t10\<close> in both synchronous modes, where \<open>Worker\<close> is undefined and where
  creating the worker throws. The promise resolves with the root that \<open>buildSync\<close>
  built over a fresh array; the leaf ranges of that root index the reordered array, whose
  entry 9 is the far triangle. The caller's array is as it was, with another triangle at
  index 9.
\<close>

theorem C1_sync_leaves_caller_array:
  "fst (build WorkerUndefined newBVHBuilder t10 30 False)
     = Inr (Resolved (Some (fst (buildSync (newBVHBuilder\<lparr> totalTriangles := 10 \<rparr>) t10 30 []))))
   \<and> fst (build WorkerCreationThrows newBVHBuilder t10 30 False)
     = Inr (Resolved (Some (fst (buildSync (newBVHBuilder\<lparr> totalTriangles := 10 \<rparr>) t10 30 []))))
   \<and> fst (snd (build WorkerUndefined newBVHBuilder t10 30 False)) = t10
   \<and> fst (snd (build WorkerCreationThrows newBVHBuilder t10 30 False)) = t10
   \<and> fst (snd (buildSync (newBVHBuilder\<lparr> totalTriangles := 10 \<rparr>) t10 30 [])) ! 9
     = triangleAt 128 128 128
   \<and> t10 ! 9 = triangleAt 8 4 3
   \<and> fst (snd (buildSync (newBVHBuilder\<lparr> totalTriangles := 10 \<rparr>) t10 30 [])) \<noteq> t10"
proof -
  let ?this1 = "newBVHBuilder\<lparr> totalTriangles := 10 \<rparr>"
  let ?B = "resetState ?this1 t10"
  have p: "presort ?B (toTriangleInfos t10) = toTriangleInfos t10"
    by (rule t10_presort) (simp add: newBVHBuilder_def)
  have "sameConfig ?B newBVHBuilder"
    by (simp add: sameConfig_def resetState_def)
  then have last9: "fst (snd (buildSync ?this1 t10 30 [])) ! 9 = triangleAt 128 128 128"
    unfolding buildSync_def p far_def [symmetric] by (rule t10_reordered_last)
  have orig: "t10 ! 9 = triangleAt 8 4 3"
    by (simp add: t10_def cluster9_def)
  have "triangleAt 8 4 3 \<noteq> triangleAt 128 128 128"
    by (simp add: triangleAt_def)
  with last9 orig have ne: "fst (snd (buildSync ?this1 t10 30 [])) \<noteq> t10"
    by metis
  have b: "build WorkerUndefined newBVHBuilder t10 30 False
           = (Inr (Resolved (Some (fst (buildSync ?this1 t10 30 [])))), t10,
              snd (snd (buildSync ?this1 t10 30 [])))"
    "build WorkerCreationThrows newBVHBuilder t10 30 False
           = (Inr (Resolved (Some (fst (buildSync ?this1 t10 30 [])))), t10,
              snd (snd (buildSync ?this1 t10 30 [])))"
    using build_sync_inRange [OF t10_inRange, of _ newBVHBuilder 30 False]
    by simp_all
  from last9 orig ne show ?thesis
    by (simp add: b)
qed

text \<open>
  C7 fails on \<open>big9\<close> when creating the worker throws. \<open>build\<close> falls back to
  \<open>buildSync\<close>, which runs in the \<open>catch\<close> block of the promise executor. The centroid
  component on axis 0 is \<open>Infinity\<close> for every triangle, the placement throws a
  \<open>TypeError\<close> in the split search of the root, and the exception leaves
  \<open>buildSync\<close> and the executor: the promise is rejected, not resolved with a root.
\<close>

theorem C7_fallback_rejected_on_overflow:
  "useWorker newBVHBuilder
   \<and> centroidJS bigTriangle Axis0 = PosInf
   \<and> placementThrows big9
   \<and> fst (buildSyncJS (newBVHBuilder\<lparr> totalTriangles := 9 \<rparr>) big9 30 []) = Inl TypeError
   \<and> fst (build WorkerCreationThrows newBVHBuilder big9 30 False)
       = Inr (Rejected (Thrown TypeError))"
proof -
  have t: "fst (buildSyncJS (newBVHBuilder\<lparr> totalTriangles := length big9 \<rparr>) big9 30 [])
           = Inl TypeError"
    by (rule buildSyncJS_throws [OF big9_throws]) (simp_all add: newBVHBuilder_def big9_def)
  have u: "useWorker newBVHBuilder"
    by (simp add: newBVHBuilder_def)
  have "fst (build WorkerCreationThrows newBVHBuilder big9 30 False)
       = Inr (Rejected (Thrown TypeError))"
    using u t by (rule build_fallback_thrown)
  moreover have "length big9 = 9"
    by (simp add: big9_def)
  ultimately show ?thesis
    using t u by (simp add: bigTriangle_centroid big9_throws)
qed

lemma interleave3_numeral:
  "interleave3 (numeral k) x y z =
     x mod 2 + 2 * (y mod 2) + 4 * (z mod 2)
     + 8 * interleave3 (pred_numeral k) (x div 2) (y div 2) (z div 2)"
  by (simp add: numeral_eq_Suc)

lemma quantize_1024: "quantize (mortonScaleOf 11) (2049 / 4094) = 1024"
  by code_simp

lemma quantize_0: "quantize (mortonScaleOf 11) 0 = 0"
  by (simp add: quantize_def mortonScaleOf_def)

text \<open>
  C8 fails for 11 bits, a depth \<open>setMortonConfig\<close> accepts. \<open>expandBits\<close> is written for
  10-bit integers: it puts bit 10 of its argument at position 30, and \<open>morton3D\<close> shifts
  that bit of \<open>z\<close> out of the 32-bit integer. A centroid quantized to \<open>(0, 0, 1024)\<close>
  gets the key 0, the key of \<open>(0, 0, 0)\<close>, where the interleaving is \<open>2^32\<close>.
\<close>

theorem C8_eleven_bits_key_collides:
  "mortonBits (setMortonConfig newBVHBuilder
      \<lparr> cfgEnabled = None, cfgBits = Some 11, cfgThreshold = None \<rparr>) = 11
   \<and> quantize (mortonScaleOf 11) (2049 / 4094) = 1024
   \<and> computeMortonCode
        (setMortonConfig newBVHBuilder \<lparr> cfgEnabled = None, cfgBits = Some 11, cfgThreshold = None \<rparr>)
        (Vector3 0 0 2049) (Vector3 0 0 0) (Vector3 4094 4094 4094) = 0
   \<and> computeMortonCode
        (setMortonConfig newBVHBuilder \<lparr> cfgEnabled = None, cfgBits = Some 11, cfgThreshold = None \<rparr>)
        (Vector3 0 0 0) (Vector3 0 0 0) (Vector3 4094 4094 4094) = 0
   \<and> morton3D 0 0 1024 = 0
   \<and> interleave3 11 0 0 1024 = 4294967296
   \<and> interleave3 11 0 0 0 = 0"
proof -
  have b: "mortonBits (setMortonConfig newBVHBuilder
      \<lparr> cfgEnabled = None, cfgBits = Some 11, cfgThreshold = None \<rparr>) = 11"
    by (simp add: setMortonConfig_def newBVHBuilder_def)
  have m: "morton3D 0 0 1024 = 0" "morton3D 0 0 0 = 0"
    by (simp_all add: morton3D_def expandBits_def)
  have c1: "mortonCodeWithBits 11 (Vector3 0 0 2049) (Vector3 0 0 0) (Vector3 4094 4094 4094) = 0"
    by (simp add: mortonCodeWithBits_def quantize_1024 quantize_0 m)
  have c0: "mortonCodeWithBits 11 (Vector3 0 0 0) (Vector3 0 0 0) (Vector3 4094 4094 4094) = 0"
    by (simp add: mortonCodeWithBits_def quantize_0 m)
  have i: "interleave3 11 0 0 1024 = 4294967296" "interleave3 11 0 0 0 = 0"
    by (simp_all add: interleave3_numeral)
  show ?thesis
    by (simp only: b computeMortonCode_def c1 c0 m i quantize_1024)
qed

text \<open>
  C6 fails on finite coordinates near the largest double. Nine triangles with every
  \<open>x\<close> coordinate at \<open>1e308\<close> have the centroid component
  \<open>(1e308 + 1e308 + 1e308) / 3 = Infinity\<close>. On axis 0 the range is
  \<open>Infinity - Infinity = NaN\<close>, which is not below \<open>1e-6\<close>, so the axis is not skipped;
  the bin index of the first triangle is \<open>NaN\<close>, \<open>this.binBounds[NaN]\<close> is
  \<open>undefined\<close>, and \<open>expandBounds\<close> throws out of \<open>buildSync\<close>.
\<close>

theorem C6_overflow_throws:
  "centroidComponentJS (Num (10 ^ 308)) (Num (10 ^ 308)) (Num (10 ^ 308)) = PosInf
   \<and> centroidRangeJS (replicate 9 PosInf) = (PosInf, PosInf)
   \<and> jsSub PosInf PosInf = NaN
   \<and> \<not> jsLess NaN (Num (1 / 10 ^ 6))
   \<and> sahPlacementJS
        (replicate 9 (centroidComponentJS (Num (10 ^ 308)) (Num (10 ^ 308)) (Num (10 ^ 308))))
       = Inl TypeError"
proof -
  have c: "centroidComponentJS (Num (10 ^ 308)) (Num (10 ^ 308)) (Num (10 ^ 308)) = PosInf"
    by (simp add: centroidComponentJS_def toDouble_def overflowBound_def)
  have r: "centroidRangeJS (replicate 9 PosInf) = (PosInf, PosInf)"
    by (simp add: centroidRangeJS_def eval_nat_numeral)
  have t: "sahPlacementJS (replicate 9 PosInf) = Inl TypeError"
    by (simp add: sahPlacementJS_def centroidRangeJS_def eval_nat_numeral jsSub_def
        getOptimalBinCount_def minBins_def binIndexJS_def binSlot_def)
  show ?thesis
    by (simp only: c r t) (simp add: jsSub_def)
qed

end
